theory Spec2Isabelle
  imports Main "HOL-Library.Multiset"
begin

section \<open>JavaScript values\<close>

text \<open>
  The class \<open>DataFrame\<close> of \<open>src/lib/dataframe.js\<close> is dynamically typed: a cell, a row
  and the constructor's argument can each be any JavaScript value. The embedding uses one
  datatype for them. Numbers are restricted to integers (the floating-point values, \<open>NaN\<close>
  and the infinities are outside the model), strings are lists of 8-bit code units, an
  array is a list and a plain object is the list of its own properties in enumeration
  order. Objects are dictionaries here: only own properties are modelled, so the names
  that every object inherits from \<open>Object.prototype\<close> (\<open>constructor\<close>, \<open>toString\<close>,
  \<open>__proto__\<close>, ...) and the array-index names that the engine enumerates first are
  assumed not to be used as column names. The one place where the source reads a fresh
  object at keys taken from the data, the frequency table of \<open>mode\<close>, models the
  inherited names explicitly.
\<close>

datatype jsval =
    Undefined
  | Null
  | Bool bool
  | Num int
  | Str string
  | Arr "jsval list"
  | Obj "(string \<times> jsval) list"

text \<open>
  Every \<open>throw new Error(msg)\<close> of the source is a constructor, named after the spec's
  error kinds: \<open>InvalidInputFormat\<close> is "Invalid input data format", \<open>IndexOutOfRange\<close> is
  "Index out of range", \<open>ColumnNotFound\<close> is "Column does not exist" and
  \<open>InvalidAggregationFunction c\<close> is "Invalid aggregation function for column 'c'".
  \<open>TypeError\<close> is the engine's own error: a property read on \<open>undefined\<close> or \<open>null\<close>, a
  call of something that is not a function, an iteration over \<open>undefined\<close>.
\<close>

datatype error =
    TypeError
  | InvalidInputFormat
  | IndexOutOfRange
  | ColumnNotFound
  | InvalidAggregationFunction string

definition nullish :: "jsval \<Rightarrow> bool" where
  "nullish v = (v = Undefined \<or> v = Null)"

fun is_array :: "jsval \<Rightarrow> bool" where
  "is_array (Arr xs) = True"
| "is_array v = False"

fun is_record :: "jsval \<Rightarrow> bool" where
  "is_record (Obj kvs) = True"
| "is_record v = False"

text \<open>\<open>typeof v\<close>.\<close>

fun typeof :: "jsval \<Rightarrow> string" where
  "typeof Undefined = ''undefined''"
| "typeof Null = ''object''"
| "typeof (Bool b) = ''boolean''"
| "typeof (Num n) = ''number''"
| "typeof (Str s) = ''string''"
| "typeof (Arr xs) = ''object''"
| "typeof (Obj kvs) = ''object''"

text \<open>Truthiness, as \<open>c ? a : b\<close> and \<open>a || b\<close> test it.\<close>

fun truthy :: "jsval \<Rightarrow> bool" where
  "truthy Undefined = False"
| "truthy Null = False"
| "truthy (Bool b) = b"
| "truthy (Num n) = (n \<noteq> 0)"
| "truthy (Str s) = (s \<noteq> [])"
| "truthy (Arr xs) = True"
| "truthy (Obj kvs) = True"

subsection \<open>Decimal numerals\<close>

text \<open>\<open>String(n)\<close> for an integer \<open>n\<close>: the decimal digits, with a leading minus sign.\<close>

definition digit_char :: "nat \<Rightarrow> char" where
  "digit_char d = ''0123456789'' ! d"

fun show_nat :: "nat \<Rightarrow> string" where
  "show_nat n = (if n < 10 then [digit_char n] else show_nat (n div 10) @ [digit_char (n mod 10)])"

declare show_nat.simps [simp del]

definition show_int :: "int \<Rightarrow> string" where
  "show_int i = (if i < 0 then CHR ''-'' # show_nat (nat (- i)) else show_nat (nat i))"

definition is_digit :: "char \<Rightarrow> bool" where
  "is_digit c = (48 \<le> (of_char c :: nat) \<and> (of_char c :: nat) \<le> 57)"

definition digit_val :: "char \<Rightarrow> nat" where
  "digit_val c = of_char c - 48"

text \<open>
  An array index as a property name: the canonical numeral of a natural number (no
  leading zero). \<open>index_of_key\<close> reads it back.
\<close>

definition read_nat :: "string \<Rightarrow> nat" where
  "read_nat s = foldl (\<lambda>acc c. 10 * acc + digit_val c) 0 s"

definition index_of_key :: "string \<Rightarrow> nat option" where
  "index_of_key k =
     (if k \<noteq> [] \<and> list_all is_digit k \<and> (k = ''0'' \<or> hd k \<noteq> CHR ''0'')
      then Some (read_nat k) else None)"

subsection \<open>Property reads and writes\<close>

text \<open>
  \<open>xs[i]\<close> on an array, for an integer \<open>i\<close>: \<open>undefined\<close> out of range (JavaScript does
  not raise).
\<close>

definition js_index :: "jsval list \<Rightarrow> int \<Rightarrow> jsval" where
  "js_index xs i = (if 0 \<le> i \<and> i < int (length xs) then xs ! nat i else Undefined)"

text \<open>
  \<open>v[k]\<close> for a property name \<open>k\<close> on a value that is neither \<open>undefined\<close> nor \<open>null\<close>
  (those raise a \<open>TypeError\<close>, which every caller below checks first). A record gives its
  own property or \<open>undefined\<close>; an array or a string gives the element at an index name
  and its \<open>length\<close>; a number or a boolean has no own property.
\<close>

fun js_prop :: "jsval \<Rightarrow> string \<Rightarrow> jsval" where
  "js_prop (Obj kvs) k = (case map_of kvs k of Some v \<Rightarrow> v | None \<Rightarrow> Undefined)"
| "js_prop (Arr xs) k =
     (case index_of_key k of
        Some i \<Rightarrow> js_index xs (int i)
      | None \<Rightarrow> if k = ''length'' then Num (int (length xs)) else Undefined)"
| "js_prop (Str s) k =
     (case index_of_key k of
        Some i \<Rightarrow> if i < length s then Str [s ! i] else Undefined
      | None \<Rightarrow> if k = ''length'' then Num (int (length s)) else Undefined)"
| "js_prop v k = Undefined"

text \<open>
  \<open>v[i]\<close> for a number \<open>i\<close> that is a natural number: an element of an array, a
  character of a string, the property named by the numeral on a record.
\<close>

fun js_at :: "jsval \<Rightarrow> nat \<Rightarrow> jsval" where
  "js_at (Arr xs) i = js_index xs (int i)"
| "js_at (Str s) i = (if i < length s then Str [s ! i] else Undefined)"
| "js_at (Obj kvs) i = js_prop (Obj kvs) (show_nat i)"
| "js_at v i = Undefined"

text \<open>
  \<open>obj[k] = v\<close> on a plain object: an existing property keeps its place and takes the
  new value, a new one is added last.
\<close>

fun obj_set :: "(string \<times> 'v) list \<Rightarrow> string \<Rightarrow> 'v \<Rightarrow> (string \<times> 'v) list" where
  "obj_set [] k v = [(k, v)]"
| "obj_set ((k', v') # kvs) k v =
     (if k' = k then (k, v) # kvs else (k', v') # obj_set kvs k v)"

text \<open>\<open>Object.keys(v)\<close> for a truthy value that is not an array.\<close>

fun object_keys :: "jsval \<Rightarrow> string list" where
  "object_keys (Obj kvs) = map fst kvs"
| "object_keys (Arr xs) = map show_nat [0..<length xs]"
| "object_keys (Str s) = map show_nat [0..<length s]"
| "object_keys v = []"

section \<open>The table\<close>

text \<open>
  The fields of a \<open>DataFrame\<close> instance: \<open>this.columns\<close>, \<open>this.data\<close> (the rows) and
  \<open>this.dtypes\<close> (an object from column name to type tag). Column names are strings, as
  the constructor's documentation types them.
\<close>

record dataframe =
  columns :: "string list"
  data :: "jsval list"
  dtypes :: "(string \<times> jsval) list"

subsection \<open>Row access\<close>

text \<open>
  \<open>getRow(index)\<close>, lines 68-74: the guard is \<open>index > this.data.length\<close>; past it the
  array is read at \<open>index\<close>.
\<close>

definition getRow :: "dataframe \<Rightarrow> int \<Rightarrow> error + jsval" where
  "getRow df index =
     (if index > int (length (data df)) then Inl IndexOutOfRange
      else Inr (js_index (data df) index))"

text \<open>
  \<open>Array.prototype.slice(start, end)\<close> on integers: a negative bound counts from the end,
  both bounds are clamped to the array and a missing \<open>end\<close> is the length.
\<close>

definition js_slice :: "'a list \<Rightarrow> int \<Rightarrow> int option \<Rightarrow> 'a list" where
  "js_slice xs start fin =
     (let len = int (length xs);
          k = (if start < 0 then max (len + start) 0 else min start len);
          final = (case fin of
                     None \<Rightarrow> len
                   | Some e \<Rightarrow> if e < 0 then max (len + e) 0 else min e len)
      in take (nat (final - k)) (drop (nat k) xs))"

text \<open>
  \<open>head(n = 5)\<close> and \<open>tail(n = 5)\<close>, lines 80-96. The argument is optional; the console is
  the list of the values printed so far, and each call returns its rows and the console
  with those rows printed once.
\<close>

definition head :: "dataframe \<Rightarrow> int option \<Rightarrow> jsval list list \<Rightarrow> jsval list \<times> jsval list list" where
  "head df arg console =
     (let n = (case arg of None \<Rightarrow> 5 | Some m \<Rightarrow> m);
          headData = js_slice (data df) 0 (Some n)
      in (headData, console @ [headData]))"

definition tail :: "dataframe \<Rightarrow> int option \<Rightarrow> jsval list list \<Rightarrow> jsval list \<times> jsval list list" where
  "tail df arg console =
     (let n = (case arg of None \<Rightarrow> 5 | Some m \<Rightarrow> m);
          tailData = js_slice (data df) (- n) None
      in (tailData, console @ [tailData]))"

subsection \<open>Columns and type tags\<close>

text \<open>
  \<open>#getColumn(columnName)\<close>, lines 51-53: \<open>this.data.map((row) => row[columnName])\<close>. The
  read raises a \<open>TypeError\<close> at a row that is \<open>undefined\<close> or \<open>null\<close>.
\<close>

definition getColumn :: "dataframe \<Rightarrow> string \<Rightarrow> error + jsval list" where
  "getColumn df columnName =
     (if list_ex nullish (data df) then Inl TypeError
      else Inr (map (\<lambda>row. js_prop row columnName) (data df)))"

text \<open>
  \<open>Array.from(new Set(xs))\<close>: the distinct elements in the order of their first
  occurrence.
\<close>

definition set_add :: "'a list \<Rightarrow> 'a \<Rightarrow> 'a list" where
  "set_add acc x = (if x \<in> set acc then acc else acc @ [x])"

definition new_Set :: "'a list \<Rightarrow> 'a list" where
  "new_Set xs = foldl set_add [] xs"

text \<open>\<open>#detectColumnType\<close> and \<open>#detectColumnTypes\<close>, lines 127-141.\<close>

definition detectColumnType :: "dataframe \<Rightarrow> string \<Rightarrow> error + string" where
  "detectColumnType df columnName =
     (case getColumn df columnName of
        Inl e \<Rightarrow> Inl e
      | Inr columnData \<Rightarrow>
          (let types = new_Set (map typeof columnData)
           in Inr (if length types = 1 then types ! 0 else ''mixed'')))"

fun detect_loop :: "dataframe \<Rightarrow> string list \<Rightarrow> (string \<times> jsval) list
    \<Rightarrow> error + (string \<times> jsval) list" where
  "detect_loop df [] dts = Inr dts"
| "detect_loop df (columnName # rest) dts =
     (case detectColumnType df columnName of
        Inl e \<Rightarrow> Inl e
      | Inr t \<Rightarrow> detect_loop df rest (obj_set dts columnName (Str t)))"

definition detectColumnTypes :: "dataframe \<Rightarrow> error + (string \<times> jsval) list" where
  "detectColumnTypes df = detect_loop df (columns df) []"

subsection \<open>Construction\<close>

text \<open>
  The constructor, lines 18-49. \<open>auto_columns n\<close> is
  \<open>Array.from({length: n}, (_, i) => `column${i + 1}`)\<close>; \<open>row_of cols row\<close> is the object
  that the \<open>forEach\<close> of lines 34-39 fills; \<open>finish\<close> is the last line,
  \<open>this.dtypes = this.#detectColumnTypes()\<close>.
\<close>

definition auto_columns :: "nat \<Rightarrow> string list" where
  "auto_columns n = map (\<lambda>i. ''column'' @ show_nat (i + 1)) [0..<n]"

definition row_of :: "string list \<Rightarrow> jsval \<Rightarrow> jsval" where
  "row_of cols row =
     Obj (foldl (\<lambda>obj (column, index). obj_set obj column (js_at row index)) []
            (zip cols [0..<length cols]))"

definition finish :: "string list \<Rightarrow> jsval list \<Rightarrow> error + dataframe" where
  "finish cols rows =
     (let this = \<lparr>columns = cols, data = rows, dtypes = []\<rparr>
      in case detectColumnTypes this of
           Inl e \<Rightarrow> Inl e
         | Inr dts \<Rightarrow> Inr (this\<lparr>dtypes := dts\<rparr>))"

text \<open>
  The argument \<open>columns\<close> is optional (\<open>None\<close> when it is not passed). \<open>data[0]\<close> raises on
  \<open>undefined\<close> and \<open>null\<close>. In the first branch \<open>data.map\<close> is called: on an object that
  only has an array as its property \<open>0\<close> that is a \<open>TypeError\<close>, and so is \<open>row[index]\<close> at
  a row that is \<open>undefined\<close> or \<open>null\<close>. In the second branch \<open>this.columns\<close> stays
  \<open>undefined\<close> when \<open>data[0]\<close> is falsy and no \<open>columns\<close> were passed, and the loop over
  it in \<open>#detectColumnTypes\<close> raises.
\<close>

definition DataFrame_new :: "jsval \<Rightarrow> string list option \<Rightarrow> error + dataframe" where
  "DataFrame_new d columnsArg =
     (if nullish d then Inl TypeError
      else case js_at d 0 of
        Arr first \<Rightarrow>
          (let cols = (case columnsArg of
                         Some cs \<Rightarrow> if length cs = length first then cs
                                    else auto_columns (length first)
                       | None \<Rightarrow> auto_columns (length first))
           in case d of
                Arr rows \<Rightarrow>
                  if cols \<noteq> [] \<and> list_ex nullish rows then Inl TypeError
                  else finish cols (map (row_of cols) rows)
              | _ \<Rightarrow> Inl TypeError)
      | d0 \<Rightarrow>
          (case d of
             Arr rows \<Rightarrow>
               (case (if truthy d0 then Some (object_keys d0) else columnsArg) of
                  None \<Rightarrow> Inl TypeError
                | Some cols \<Rightarrow> finish cols rows)
           | _ \<Rightarrow> Inl InvalidInputFormat))"

text \<open>
  The two input shapes in the spec's words: an ordered sequence of ordered value
  sequences, and an ordered sequence of key-value records.
\<close>

definition spec_array_of_arrays :: "jsval \<Rightarrow> bool" where
  "spec_array_of_arrays v = (case v of Arr rows \<Rightarrow> list_all is_array rows | _ \<Rightarrow> False)"


text \<open>
  Uniform records, the spec's word for the second shape: every record has the keys of the
  first one.
\<close>

definition spec_uniform_records :: "jsval \<Rightarrow> bool" where
  "spec_uniform_records v =
     (case v of
        Arr rows \<Rightarrow>
          list_all (\<lambda>row. is_record row \<and> set (object_keys row) = set (object_keys (hd rows))) rows
      | _ \<Rightarrow> False)"

subsection \<open>Renaming and dropping columns\<close>

text \<open>
  \<open>renameColumns(columns)\<close>, lines 147-165. The argument maps old names to new names;
  \<open>columns[oldColumn] || oldColumn\<close> keeps the old name when the mapping has none or has
  the empty string. The method assigns the three fields of the receiver; the model
  returns the receiver's new state.
\<close>

definition renamed :: "(string \<times> string) list \<Rightarrow> string \<Rightarrow> string" where
  "renamed mapping oldColumn =
     (case map_of mapping oldColumn of
        Some newColumn \<Rightarrow> if newColumn \<noteq> [] then newColumn else oldColumn
      | None \<Rightarrow> oldColumn)"

definition renameColumns :: "dataframe \<Rightarrow> (string \<times> string) list \<Rightarrow> error + dataframe" where
  "renameColumns df mapping =
     (let newColumns = map (renamed mapping) (columns df)
      in if columns df \<noteq> [] \<and> list_ex nullish (data df) then Inl TypeError
         else
           (let newData =
                  map (\<lambda>row. Obj (foldl (\<lambda>newRow oldColumn.
                                     obj_set newRow (renamed mapping oldColumn) (js_prop row oldColumn))
                                   [] (columns df)))
                      (data df);
                this = df\<lparr>columns := newColumns, data := newData\<rparr>
            in case detectColumnTypes this of
                 Inl e \<Rightarrow> Inl e
               | Inr dts \<Rightarrow> Inr (this\<lparr>dtypes := dts\<rparr>)))"

text \<open>
  \<open>dropColumns\<close> and \<open>select\<close> take one name or an array of names:
  \<open>Array.isArray(columns) ? columns : [columns]\<close>. \<open>pick cols row\<close> is the loop that copies
  the properties \<open>cols\<close> of \<open>row\<close> into a fresh object (lines 176-183 and 199-206).
\<close>

datatype name_arg = Name string | Names "string list"

fun to_names :: "name_arg \<Rightarrow> string list" where
  "to_names (Name c) = [c]"
| "to_names (Names cs) = cs"

definition pick :: "string list \<Rightarrow> jsval \<Rightarrow> jsval" where
  "pick cols row = Obj (foldl (\<lambda>newRow column. obj_set newRow column (js_prop row column)) [] cols)"

definition dropColumns :: "dataframe \<Rightarrow> name_arg \<Rightarrow> error + dataframe" where
  "dropColumns df arg =
     (let columnsToDrop = to_names arg;
          newColumns = filter (\<lambda>column. column \<notin> set columnsToDrop) (columns df)
      in if newColumns \<noteq> [] \<and> list_ex nullish (data df) then Inl TypeError
         else
           (let newData = map (pick newColumns) (data df);
                this = df\<lparr>columns := newColumns, data := newData\<rparr>
            in case detectColumnTypes this of
                 Inl e \<Rightarrow> Inl e
               | Inr dts \<Rightarrow> Inr (this\<lparr>dtypes := dts\<rparr>)))"

subsection \<open>Derived tables\<close>

text \<open>
  \<open>select\<close> (lines 194-209) and \<open>filter\<close> (lines 216-220) end in \<open>new DataFrame(...)\<close>. The
  condition of \<open>filter\<close> is a function of the row whose result is tested for truthiness.
\<close>

definition select :: "dataframe \<Rightarrow> name_arg \<Rightarrow> error + dataframe" where
  "select df arg =
     (let columnsToSelect = to_names arg;
          newColumns = filter (\<lambda>column. column \<in> set (columns df)) columnsToSelect
      in if newColumns \<noteq> [] \<and> list_ex nullish (data df) then Inl TypeError
         else DataFrame_new (Arr (map (pick newColumns) (data df))) (Some newColumns))"

definition filter_df :: "dataframe \<Rightarrow> (jsval \<Rightarrow> bool) \<Rightarrow> error + dataframe" where
  "filter_df df condition = DataFrame_new (Arr (filter condition (data df))) (Some (columns df))"

text \<open>\<open>dtypes[c]\<close>, read from a table.\<close>

definition dtype :: "dataframe \<Rightarrow> string \<Rightarrow> jsval" where
  "dtype df c = js_prop (Obj (dtypes df)) c"

text \<open>The table of the repository's tests: three rows, columns \<open>ID\<close>, \<open>Name\<close>, \<open>Age\<close>.\<close>

definition test_rows :: "jsval list" where
  "test_rows =
     [Obj [(''ID'', Num 1), (''Name'', Str ''John''), (''Age'', Num 25)],
      Obj [(''ID'', Num 2), (''Name'', Str ''Jane''), (''Age'', Num 30)],
      Obj [(''ID'', Num 3), (''Name'', Str ''Sam''), (''Age'', Num 28)]]"

definition test_df :: dataframe where
  "test_df = \<lparr>columns = [''ID'', ''Name'', ''Age''], data = test_rows,
     dtypes = [(''ID'', Str ''number''), (''Name'', Str ''string''), (''Age'', Str ''number'')]\<rparr>"


subsection \<open>Column access, aggregation and statistics\<close>



text \<open>
  \<open>aggregate(aggregations)\<close>, lines 271-286. The argument is an object from column names to
  values, enumerated by \<open>for ... in\<close>; a value is a function from the column's values to a
  result (\<open>typeof aggregationFn === "function"\<close>) or something else.
\<close>

datatype reducer = Function "jsval list \<Rightarrow> jsval" | NotFunction jsval

fun aggregate_loop :: "dataframe \<Rightarrow> (string \<times> reducer) list \<Rightarrow> (string \<times> jsval) list
    \<Rightarrow> error + (string \<times> jsval) list" where
  "aggregate_loop df [] aggregatedData = Inr aggregatedData"
| "aggregate_loop df ((columnName, Function aggregationFn) # rest) aggregatedData =
     (case getColumn df columnName of
        Inl e \<Rightarrow> Inl e
      | Inr columnData \<Rightarrow>
          aggregate_loop df rest (obj_set aggregatedData columnName (aggregationFn columnData)))"
| "aggregate_loop df ((columnName, NotFunction v) # rest) aggregatedData =
     Inl (InvalidAggregationFunction columnName)"





text \<open>
  \<open>String(v)\<close>, which is also the property name that \<open>obj[v]\<close> uses. An array is its
  elements joined by commas, \<open>undefined\<close> and \<open>null\<close> elements as the empty string; a record
  is \<open>[object Object]\<close>.
\<close>

fun to_string :: "jsval \<Rightarrow> string" and join_elems :: "jsval list \<Rightarrow> string" where
  "to_string Undefined = ''undefined''"
| "to_string Null = ''null''"
| "to_string (Bool b) = (if b then ''true'' else ''false'')"
| "to_string (Num n) = show_int n"
| "to_string (Str s) = s"
| "to_string (Arr xs) = join_elems xs"
| "to_string (Obj kvs) = ''[object Object]''"
| "join_elems [] = []"
| "join_elems [x] = (if x = Undefined \<or> x = Null then [] else to_string x)"
| "join_elems (x # y # ys) =
     (if x = Undefined \<or> x = Null then [] else to_string x) @ '','' @ join_elems (y # ys)"

text \<open>
  \<open>mode(columnName)\<close>, lines 321-338. \<open>frequencyMap\<close> is a fresh object \<open>{}\<close> that is read
  and written at the property named \<open>String(value)\<close>. A name that \<open>{}\<close> inherits from
  \<open>Object.prototype\<close> reads as a function (or, for \<open>__proto__\<close>, an object), never as
  \<open>undefined\<close>: \<open>frequencyMap[value] + 1\<close> is then a string, which is stored (ignored for
  \<open>__proto__\<close>), and both comparisons with \<open>maxFrequency\<close> are false, at this and at every
  later occurrence. Such a value leaves \<open>maxFrequency\<close> and \<open>modes\<close> as they are. For every
  other name the property holds the number of occurrences so far.
\<close>

definition object_prototype_names :: "string list" where
  "object_prototype_names =
     [''constructor'', ''__defineGetter__'', ''__defineSetter__'', ''hasOwnProperty'',
      ''__lookupGetter__'', ''__lookupSetter__'', ''isPrototypeOf'',
      ''propertyIsEnumerable'', ''toString'', ''valueOf'', ''__proto__'', ''toLocaleString'']"

record mode_state =
  frequencyMap :: "string \<rightharpoonup> nat"
  maxFrequency :: nat
  modes :: "jsval list"

definition mode_step :: "mode_state \<Rightarrow> jsval \<Rightarrow> mode_state" where
  "mode_step st v =
     (let key = to_string v
      in if key \<in> set object_prototype_names then st
         else
           (let n = (case frequencyMap st key of Some c \<Rightarrow> c + 1 | None \<Rightarrow> 1);
                st' = st\<lparr>frequencyMap := (frequencyMap st)(key \<mapsto> n)\<rparr>
            in if n > maxFrequency st' then st'\<lparr>maxFrequency := n, modes := [v]\<rparr>
               else if n = maxFrequency st' then st'\<lparr>modes := modes st' @ [v]\<rparr>
               else st'))"

definition mode_init :: mode_state where
  "mode_init = \<lparr>frequencyMap = Map.empty, maxFrequency = 0, modes = []\<rparr>"

definition mode_values :: "jsval list \<Rightarrow> jsval list" where
  "mode_values columnData = modes (foldl mode_step mode_init columnData)"

definition mode :: "dataframe \<Rightarrow> string \<Rightarrow> error + jsval list" where
  "mode df columnName =
     (case getColumn df columnName of
        Inl e \<Rightarrow> Inl e
      | Inr columnData \<Rightarrow> Inr (mode_values columnData))"

text \<open>
  The spec's invariant on rows (section 3): every row is a record, and every key of a row
  is listed in \<open>columns\<close>.
\<close>

definition rows_within_columns :: "dataframe \<Rightarrow> bool" where
  "rows_within_columns df =
     list_all (\<lambda>row. is_record row \<and> list_all (\<lambda>k. k \<in> set (columns df)) (object_keys row)) (data df)"

text \<open>
  The words of the claim about \<open>mode\<close>: \<open>max_count xs\<close> is the largest number of occurrences
  of an element of \<open>xs\<close>, and \<open>reach_positions xs\<close> lists, in increasing order, the positions
  at which the element read there has occurred \<open>max_count xs\<close> times so far.
  \<open>countable_value v\<close> says that \<open>String(v)\<close> is not a name inherited from
  \<open>Object.prototype\<close>. \<open>mixed_df\<close> is a table with one column that holds the number 1 and
  the string "1".
\<close>

definition max_count :: "'a list \<Rightarrow> nat" where
  "max_count xs = foldr (\<lambda>x m. max (count_list xs x) m) xs 0"

definition reach_positions :: "'a list \<Rightarrow> nat list" where
  "reach_positions xs =
     filter (\<lambda>i. count_list (take (Suc i) xs) (xs ! i) = max_count xs) [0..<length xs]"


definition countable_value :: "jsval \<Rightarrow> bool" where
  "countable_value v = (to_string v \<notin> set object_prototype_names)"

subsection \<open>Sorting\<close>

text \<open>
  The operator \<open><\<close> on two values. Arrays and records are first converted to their
  string forms. Two strings are compared code unit by code unit; otherwise both sides
  become numbers (\<open>undefined\<close> becomes \<open>NaN\<close>, against which every comparison is false).
  Converting a string to a number is a floating-point parse, which the embedding leaves
  out: the comparison of a string with a non-string is the parameter \<open>coerced_less\<close>.
\<close>

fun str_less :: "string \<Rightarrow> string \<Rightarrow> bool" where
  "str_less [] [] = False"
| "str_less [] (y # ys) = True"
| "str_less (x # xs) [] = False"
| "str_less (x # xs) (y # ys) =
     ((of_char x :: nat) < of_char y \<or> (x = y \<and> str_less xs ys))"

fun to_primitive :: "jsval \<Rightarrow> jsval" where
  "to_primitive (Arr xs) = Str (to_string (Arr xs))"
| "to_primitive (Obj kvs) = Str (to_string (Obj kvs))"
| "to_primitive v = v"

fun to_number :: "jsval \<Rightarrow> int option" where
  "to_number Null = Some 0"
| "to_number (Bool b) = Some (if b then 1 else 0)"
| "to_number (Num n) = Some n"
| "to_number v = None"

fun primitive_less :: "(jsval \<Rightarrow> jsval \<Rightarrow> bool) \<Rightarrow> jsval \<Rightarrow> jsval \<Rightarrow> bool" where
  "primitive_less coerced_less (Str s) (Str t) = str_less s t"
| "primitive_less coerced_less (Str s) q = coerced_less (Str s) q"
| "primitive_less coerced_less p (Str t) = coerced_less p (Str t)"
| "primitive_less coerced_less p q =
     (case (to_number p, to_number q) of (Some x, Some y) \<Rightarrow> x < y | _ \<Rightarrow> False)"

definition js_less :: "(jsval \<Rightarrow> jsval \<Rightarrow> bool) \<Rightarrow> jsval \<Rightarrow> jsval \<Rightarrow> bool" where
  "js_less coerced_less a b = primitive_less coerced_less (to_primitive a) (to_primitive b)"

text \<open>The comparator that \<open>sortBy\<close> passes to \<open>sort\<close>, lines 230-242.\<close>

fun compare_rows :: "(jsval \<Rightarrow> jsval \<Rightarrow> bool) \<Rightarrow> bool \<Rightarrow> string list \<Rightarrow> jsval \<Rightarrow> jsval \<Rightarrow> int" where
  "compare_rows coerced_less ascending [] row1 row2 = 0"
| "compare_rows coerced_less ascending (column # rest) row1 row2 =
     (let value1 = js_prop row1 column; value2 = js_prop row2 column
      in if js_less coerced_less value1 value2 then (if ascending then - 1 else 1)
         else if js_less coerced_less value2 value1 then (if ascending then 1 else - 1)
         else compare_rows coerced_less ascending rest row1 row2)"

text \<open>
  \<open>Array.prototype.sort(comparefn)\<close> is a stable sort: the elements that are \<open>undefined\<close>
  go last without being compared, the others are ordered by the comparator. The model is
  insertion sort from the right, which is stable. (When the comparator is not a consistent
  ordering the language leaves the resulting order to the implementation; for a
  consistent one the stable order is unique.)
\<close>

fun insert_by :: "('a \<Rightarrow> 'a \<Rightarrow> int) \<Rightarrow> 'a \<Rightarrow> 'a list \<Rightarrow> 'a list" where
  "insert_by cmp x [] = [x]"
| "insert_by cmp x (y # ys) = (if cmp x y \<le> 0 then x # y # ys else y # insert_by cmp x ys)"

definition sort_by :: "('a \<Rightarrow> 'a \<Rightarrow> int) \<Rightarrow> 'a list \<Rightarrow> 'a list" where
  "sort_by cmp xs = foldr (insert_by cmp) xs []"

definition array_sort :: "(jsval \<Rightarrow> jsval \<Rightarrow> int) \<Rightarrow> jsval list \<Rightarrow> jsval list" where
  "array_sort cmp xs =
     sort_by cmp (filter (\<lambda>x. x \<noteq> Undefined) xs) @ filter (\<lambda>x. x = Undefined) xs"

text \<open>
  \<open>sortBy(columns, ascending = true)\<close>, lines 228-245: a copy of the rows is sorted and
  passed to the constructor. The comparator reads \<open>row[column]\<close>, which raises at a row
  that is \<open>null\<close>; it is called as soon as two rows are there to compare.
\<close>

definition sortBy :: "(jsval \<Rightarrow> jsval \<Rightarrow> bool) \<Rightarrow> dataframe \<Rightarrow> string list \<Rightarrow> bool option
    \<Rightarrow> error + dataframe" where
  "sortBy coerced_less df cols arg =
     (let ascending = (case arg of None \<Rightarrow> True | Some b \<Rightarrow> b);
          sortData = data df;
          compared = filter (\<lambda>x. x \<noteq> Undefined) sortData
      in if cols \<noteq> [] \<and> 2 \<le> length compared \<and> Null \<in> set compared then Inl TypeError
         else DataFrame_new (Arr (array_sort (compare_rows coerced_less ascending cols) sortData))
                (Some (columns df)))"

text \<open>
  The order of the claim about \<open>sortBy\<close>, in its words: the natural ordering of a type
  (numeric for numbers, lexical for strings, \<open>false\<close> before \<open>true\<close>), and the first listed
  column on which two rows differ decides, in the direction \<open>ascending\<close>.
  \<open>same_keys cols r s\<close>: the rows agree on all listed columns.
\<close>

fun spec_natural_less :: "jsval \<Rightarrow> jsval \<Rightarrow> bool" where
  "spec_natural_less (Num a) (Num b) = (a < b)"
| "spec_natural_less (Str s) (Str t) = str_less s t"
| "spec_natural_less (Bool a) (Bool b) = (\<not> a \<and> b)"
| "spec_natural_less v w = False"

fun spec_row_before :: "bool \<Rightarrow> string list \<Rightarrow> jsval \<Rightarrow> jsval \<Rightarrow> bool" where
  "spec_row_before ascending [] r s = False"
| "spec_row_before ascending (c # cs) r s =
     ((if ascending then spec_natural_less (js_prop r c) (js_prop s c)
       else spec_natural_less (js_prop s c) (js_prop r c))
      \<or> (js_prop r c = js_prop s c \<and> spec_row_before ascending cs r s))"

definition same_keys :: "string list \<Rightarrow> jsval \<Rightarrow> jsval \<Rightarrow> bool" where
  "same_keys cols r s = (map (js_prop r) cols = map (js_prop s) cols)"




definition row_le :: "bool \<Rightarrow> string list \<Rightarrow> jsval \<Rightarrow> jsval \<Rightarrow> bool" where
  "row_le ascending cols r s = (spec_row_before ascending cols r s \<or> same_keys cols r s)"

subsection \<open>Grouping\<close>

text \<open>
  \<open>JSON.stringify\<close> on the values of the model. A string is quoted, with the quotation
  mark, the backslash and the control characters escaped. In an array \<open>undefined\<close> is
  written \<open>null\<close>; in a record a property whose value is \<open>undefined\<close> is left out.
\<close>

definition hex_char :: "nat \<Rightarrow> char" where
  "hex_char d = ''0123456789abcdef'' ! d"

definition json_escape :: "char \<Rightarrow> string" where
  "json_escape c =
     (let n = (of_char c :: nat)
      in if n = 0x22 then [CHR 0x5C, CHR 0x22]
         else if n = 0x5C then [CHR 0x5C, CHR 0x5C]
         else if n = 8 then [CHR 0x5C, CHR ''b'']
         else if n = 9 then [CHR 0x5C, CHR ''t'']
         else if n = 10 then [CHR 0x5C, CHR ''n'']
         else if n = 12 then [CHR 0x5C, CHR ''f'']
         else if n = 13 then [CHR 0x5C, CHR ''r'']
         else if n < 32 then [CHR 0x5C, CHR ''u'', CHR ''0'', CHR ''0'',
                              hex_char (n div 16), hex_char (n mod 16)]
         else [c])"

definition json_quote :: "string \<Rightarrow> string" where
  "json_quote s = CHR 0x22 # concat (map json_escape s) @ [CHR 0x22]"

fun json_value :: "jsval \<Rightarrow> string"
  and json_elems :: "jsval list \<Rightarrow> string"
  and json_props :: "(string \<times> jsval) list \<Rightarrow> string" where
  "json_value Undefined = ''null''"
| "json_value Null = ''null''"
| "json_value (Bool b) = (if b then ''true'' else ''false'')"
| "json_value (Num n) = show_int n"
| "json_value (Str s) = json_quote s"
| "json_value (Arr xs) = ''['' @ json_elems xs @ '']''"
| "json_value (Obj kvs) = ''{'' @ json_props kvs @ ''}''"
| "json_elems [] = []"
| "json_elems [x] = json_value x"
| "json_elems (x # y # ys) = json_value x @ '','' @ json_elems (y # ys)"
| "json_props [] = []"
| "json_props ((k, v) # kvs) =
     (if v = Undefined then json_props kvs
      else json_quote k @ '':'' @ json_value v
           @ (if json_props kvs = [] then [] else '','' @ json_props kvs))"

text \<open>
  \<open>groupBy(columns)\<close>, lines 252-264. The key of a row is
  \<open>JSON.stringify(columns.map((column) => row[column]))\<close>. \<open>groups\<close> is a \<open>Map\<close>, which keeps
  its keys in the order of their first insertion; \<open>map_push groups key row\<close> is lines
  256-259: a new key gets an empty bucket, and the row is pushed onto the key's bucket.
  The buckets are then the \<open>data\<close> argument of the constructor.
\<close>

definition group_key :: "string list \<Rightarrow> jsval \<Rightarrow> string" where
  "group_key cols row = json_value (Arr (map (\<lambda>column. js_prop row column) cols))"

fun map_push :: "(string \<times> jsval list) list \<Rightarrow> string \<Rightarrow> jsval \<Rightarrow> (string \<times> jsval list) list" where
  "map_push [] key row = [(key, [row])]"
| "map_push ((k, bucket) # rest) key row =
     (if k = key then (k, bucket @ [row]) # rest else (k, bucket) # map_push rest key row)"

definition group_rows :: "string list \<Rightarrow> jsval list \<Rightarrow> (string \<times> jsval list) list" where
  "group_rows cols rows = foldl (\<lambda>groups row. map_push groups (group_key cols row) row) [] rows"

definition groupBy :: "dataframe \<Rightarrow> string list \<Rightarrow> error + dataframe" where
  "groupBy df cols =
     (if cols \<noteq> [] \<and> list_ex nullish (data df) then Inl TypeError
      else
        (let groups = group_rows cols (data df);
             groupData = map (\<lambda>(key, bucket). Arr bucket) groups
         in DataFrame_new (Arr groupData) (Some (columns df))))"



text \<open>
  Reading back what \<open>JSON.stringify\<close> wrote, for the proof that different keys give
  different strings: the value of a hexadecimal digit, and the character that an escape
  sequence at the front of a string stands for.
\<close>

definition hex_val :: "char \<Rightarrow> nat" where
  "hex_val c = (if (of_char c :: nat) < 58 then of_char c - 48 else of_char c - 87)"






section \<open>The store: tables that share arrays and rows\<close>

text \<open>
  The functions above compute with values. Whether a method changes the table it is
  called on is a question about objects: \<open>filter\<close>, \<open>sortBy\<close> and \<open>groupBy\<close> put the
  receiver's row objects into the arrays they build, \<open>sort\<close> sorts an array in place, and
  the constructor keeps the arrays it is given. The store model makes this explicit. A
  value is a primitive or a reference; the store is the list of the cells allocated so
  far, a reference being an index into it. A cell is an array, an array of column names
  (arrays typed \<open>string[]\<close> in the source), a plain object or a \<open>DataFrame\<close> instance with
  its three fields.
\<close>

datatype val = VUndefined | VNull | VBool bool | VNum int | VStr string | VRef nat

datatype cell =
    ArrayCell "val list"
  | NamesCell "string list"
  | ObjectCell "(string \<times> val) list"
  | FrameCell val val val

type_synonym store = "cell list"

text \<open>
  A computation takes the store and returns the store after it, with a result or the
  error it threw. Its steps: return a value, throw, read the store, allocate a cell
  (\<open>[]\<close>, \<open>{}\<close>, \<open>new\<close>, and every array method that returns a new array), and assign to a
  cell that exists (\<open>obj[k] = v\<close>, \<open>push\<close>, \<open>sort\<close>, \<open>this.f = v\<close>).
\<close>

type_synonym 'a effect = "store \<Rightarrow> (error + 'a) \<times> store"

definition succeed :: "'a \<Rightarrow> 'a effect" where
  "succeed x h = (Inr x, h)"

definition fail :: "error \<Rightarrow> 'a effect" where
  "fail e h = (Inl e, h)"

definition inspect :: "(store \<Rightarrow> error + 'a) \<Rightarrow> 'a effect" where
  "inspect f h = (f h, h)"

definition allocate :: "cell \<Rightarrow> nat effect" where
  "allocate c h = (Inr (length h), h @ [c])"

definition assign :: "nat \<Rightarrow> (cell \<Rightarrow> cell) \<Rightarrow> unit effect" where
  "assign a f h = (Inr (), h[a := f (h ! a)])"

definition and_then :: "'a effect \<Rightarrow> ('a \<Rightarrow> 'b effect) \<Rightarrow> 'b effect" where
  "and_then m f h = (case m h of (Inl e, h') \<Rightarrow> (Inl e, h') | (Inr x, h') \<Rightarrow> f x h')"

fun map_effect :: "('a \<Rightarrow> 'b effect) \<Rightarrow> 'a list \<Rightarrow> 'b list effect" where
  "map_effect f [] = succeed []"
| "map_effect f (x # xs) =
     and_then (f x) (\<lambda>y. and_then (map_effect f xs) (\<lambda>ys. succeed (y # ys)))"

fun fold_effect :: "('a \<Rightarrow> 's \<Rightarrow> 's effect) \<Rightarrow> 'a list \<Rightarrow> 's \<Rightarrow> 's effect" where
  "fold_effect f [] s = succeed s"
| "fold_effect f (x # xs) s = and_then (f x s) (fold_effect f xs)"

subsection \<open>Reading the store\<close>

definition cell_of :: "store \<Rightarrow> val \<Rightarrow> cell option" where
  "cell_of h v = (case v of VRef a \<Rightarrow> if a < length h then Some (h ! a) else None | _ \<Rightarrow> None)"

text \<open>\<open>Array.isArray(v)\<close>, and the elements of an array.\<close>

definition is_array_val :: "store \<Rightarrow> val \<Rightarrow> bool" where
  "is_array_val h v =
     (case cell_of h v of Some (ArrayCell xs) \<Rightarrow> True | Some (NamesCell ns) \<Rightarrow> True | _ \<Rightarrow> False)"

definition elements :: "store \<Rightarrow> val \<Rightarrow> error + val list" where
  "elements h v =
     (case cell_of h v of
        Some (ArrayCell xs) \<Rightarrow> Inr xs
      | Some (NamesCell ns) \<Rightarrow> Inr (map VStr ns)
      | _ \<Rightarrow> Inl TypeError)"

text \<open>An array of column names that is iterated or searched; anything else raises.\<close>

definition names_of :: "store \<Rightarrow> val \<Rightarrow> error + string list" where
  "names_of h v = (case cell_of h v of Some (NamesCell ns) \<Rightarrow> Inr ns | _ \<Rightarrow> Inl TypeError)"

text \<open>\<open>v[k]\<close> and \<open>v[i]\<close>, as \<open>js_prop\<close> and \<open>js_at\<close> above, with the \<open>TypeError\<close> of a read on
  \<open>undefined\<close> or \<open>null\<close>.\<close>

definition index_val :: "val list \<Rightarrow> nat \<Rightarrow> val" where
  "index_val xs i = (if i < length xs then xs ! i else VUndefined)"

definition get_prop :: "store \<Rightarrow> val \<Rightarrow> string \<Rightarrow> error + val" where
  "get_prop h v k =
     (case v of
        VUndefined \<Rightarrow> Inl TypeError
      | VNull \<Rightarrow> Inl TypeError
      | VStr s \<Rightarrow>
          Inr (case index_of_key k of
                 Some i \<Rightarrow> if i < length s then VStr [s ! i] else VUndefined
               | None \<Rightarrow> if k = ''length'' then VNum (int (length s)) else VUndefined)
      | VRef a \<Rightarrow>
          Inr (case cell_of h v of
                 Some (ObjectCell kvs) \<Rightarrow>
                   (case map_of kvs k of Some w \<Rightarrow> w | None \<Rightarrow> VUndefined)
               | Some (ArrayCell xs) \<Rightarrow>
                   (case index_of_key k of
                      Some i \<Rightarrow> index_val xs i
                    | None \<Rightarrow> if k = ''length'' then VNum (int (length xs)) else VUndefined)
               | Some (NamesCell ns) \<Rightarrow>
                   (case index_of_key k of
                      Some i \<Rightarrow> index_val (map VStr ns) i
                    | None \<Rightarrow> if k = ''length'' then VNum (int (length ns)) else VUndefined)
               | _ \<Rightarrow> VUndefined)
      | _ \<Rightarrow> Inr VUndefined)"

definition get_index :: "store \<Rightarrow> val \<Rightarrow> nat \<Rightarrow> error + val" where
  "get_index h v i =
     (case v of
        VUndefined \<Rightarrow> Inl TypeError
      | VNull \<Rightarrow> Inl TypeError
      | VStr s \<Rightarrow> Inr (if i < length s then VStr [s ! i] else VUndefined)
      | VRef a \<Rightarrow>
          Inr (case cell_of h v of
                 Some (ObjectCell kvs) \<Rightarrow>
                   (case map_of kvs (show_nat i) of Some w \<Rightarrow> w | None \<Rightarrow> VUndefined)
               | Some (ArrayCell xs) \<Rightarrow> index_val xs i
               | Some (NamesCell ns) \<Rightarrow> index_val (map VStr ns) i
               | _ \<Rightarrow> VUndefined)
      | _ \<Rightarrow> Inr VUndefined)"

fun type_tag :: "val \<Rightarrow> string" where
  "type_tag VUndefined = ''undefined''"
| "type_tag VNull = ''object''"
| "type_tag (VBool b) = ''boolean''"
| "type_tag (VNum n) = ''number''"
| "type_tag (VStr s) = ''string''"
| "type_tag (VRef a) = ''object''"

fun is_truthy :: "val \<Rightarrow> bool" where
  "is_truthy VUndefined = False"
| "is_truthy VNull = False"
| "is_truthy (VBool b) = b"
| "is_truthy (VNum n) = (n \<noteq> 0)"
| "is_truthy (VStr s) = (s \<noteq> [])"
| "is_truthy (VRef a) = True"

definition keys_of :: "store \<Rightarrow> val \<Rightarrow> string list" where
  "keys_of h v =
     (case v of
        VStr s \<Rightarrow> map show_nat [0..<length s]
      | VRef a \<Rightarrow>
          (case cell_of h v of
             Some (ObjectCell kvs) \<Rightarrow> map fst kvs
           | Some (ArrayCell xs) \<Rightarrow> map show_nat [0..<length xs]
           | Some (NamesCell ns) \<Rightarrow> map show_nat [0..<length ns]
           | _ \<Rightarrow> [])
      | _ \<Rightarrow> [])"

text \<open>The fields of the instance at a reference.\<close>

definition field_columns :: "store \<Rightarrow> val \<Rightarrow> error + val" where
  "field_columns h this = (case cell_of h this of Some (FrameCell c d t) \<Rightarrow> Inr c | _ \<Rightarrow> Inl TypeError)"

definition field_data :: "store \<Rightarrow> val \<Rightarrow> error + val" where
  "field_data h this = (case cell_of h this of Some (FrameCell c d t) \<Rightarrow> Inr d | _ \<Rightarrow> Inl TypeError)"

fun set_columns :: "val \<Rightarrow> cell \<Rightarrow> cell" where
  "set_columns v (FrameCell c d t) = FrameCell v d t"
| "set_columns v other = other"

fun set_data :: "val \<Rightarrow> cell \<Rightarrow> cell" where
  "set_data v (FrameCell c d t) = FrameCell c v t"
| "set_data v other = other"

fun set_dtypes :: "val \<Rightarrow> cell \<Rightarrow> cell" where
  "set_dtypes v (FrameCell c d t) = FrameCell c d v"
| "set_dtypes v other = other"

fun put_prop :: "string \<Rightarrow> val \<Rightarrow> cell \<Rightarrow> cell" where
  "put_prop k v (ObjectCell kvs) = ObjectCell (obj_set kvs k v)"
| "put_prop k v other = other"

fun push :: "val \<Rightarrow> cell \<Rightarrow> cell" where
  "push v (ArrayCell xs) = ArrayCell (xs @ [v])"
| "push v other = other"

subsection \<open>The methods on the store\<close>

text \<open>
  Every array or object that outlives a statement is a cell; an array that a method
  builds and reads once (the column handed to \<open>typeof\<close>, the key array handed to
  \<open>JSON.stringify\<close>) is a value of the model. \<open>collect\<close> runs reads in order and stops at
  the first that throws.
\<close>

fun collect :: "(error + 'a) list \<Rightarrow> error + 'a list" where
  "collect [] = Inr []"
| "collect (Inl e # rest) = Inl e"
| "collect (Inr x # rest) = (case collect rest of Inl e \<Rightarrow> Inl e | Inr xs \<Rightarrow> Inr (x # xs))"

definition rows_of :: "store \<Rightarrow> val \<Rightarrow> error + val list" where
  "rows_of h this = (case field_data h this of Inl e \<Rightarrow> Inl e | Inr d \<Rightarrow> elements h d)"

definition column_names :: "store \<Rightarrow> val \<Rightarrow> error + string list" where
  "column_names h this = (case field_columns h this of Inl e \<Rightarrow> Inl e | Inr c \<Rightarrow> names_of h c)"

definition column_values :: "store \<Rightarrow> val \<Rightarrow> string \<Rightarrow> error + val list" where
  "column_values h this columnName =
     (case rows_of h this of
        Inl e \<Rightarrow> Inl e
      | Inr rows \<Rightarrow> collect (map (\<lambda>row. get_prop h row columnName) rows))"

definition detect_type :: "store \<Rightarrow> val \<Rightarrow> string \<Rightarrow> error + string" where
  "detect_type h this columnName =
     (case column_values h this columnName of
        Inl e \<Rightarrow> Inl e
      | Inr columnData \<Rightarrow>
          (let types = new_Set (map type_tag columnData)
           in Inr (if length types = 1 then types ! 0 else ''mixed'')))"

text \<open>\<open>#detectColumnTypes\<close>: a fresh object \<open>dtypes\<close>, one assignment per column.\<close>

definition detect_types :: "val \<Rightarrow> val effect" where
  "detect_types this =
     and_then (allocate (ObjectCell [])) (\<lambda>dts.
     and_then (inspect (\<lambda>h. column_names h this)) (\<lambda>cols.
     and_then (fold_effect (\<lambda>columnName u.
                 and_then (inspect (\<lambda>h. detect_type h this columnName)) (\<lambda>t.
                 assign dts (put_prop columnName (VStr t)))) cols ()) (\<lambda>u.
     succeed (VRef dts))))"

definition finish_instance :: "nat \<Rightarrow> val effect" where
  "finish_instance this =
     and_then (detect_types (VRef this)) (\<lambda>dts.
     and_then (assign this (set_dtypes dts)) (\<lambda>u.
     succeed (VRef this)))"

text \<open>
  \<open>new DataFrame(data, columns)\<close>: the instance is allocated and its fields are assigned.
  The first branch stores the \<open>columns\<close> argument itself, or a fresh array of generated
  names, and a fresh array of fresh row objects; the second stores a fresh \<open>Object.keys\<close>
  array, or the \<open>columns\<close> argument itself, and the \<open>data\<close> argument itself.
\<close>

definition fill_row :: "string list \<Rightarrow> val \<Rightarrow> val effect" where
  "fill_row names row =
     and_then (allocate (ObjectCell [])) (\<lambda>obj.
     and_then (fold_effect (\<lambda>(column, index) u.
                 and_then (inspect (\<lambda>h. get_index h row index)) (\<lambda>v.
                 assign obj (put_prop column v))) (zip names [0..<length names]) ()) (\<lambda>u.
     succeed (VRef obj)))"

definition construct :: "val \<Rightarrow> val \<Rightarrow> val effect" where
  "construct d columnsArg =
     and_then (allocate (FrameCell VUndefined VUndefined VUndefined)) (\<lambda>this.
     and_then (inspect (\<lambda>h. get_index h d 0)) (\<lambda>d0.
     and_then (inspect (\<lambda>h. Inr (is_array_val h d0, is_array_val h d))) (\<lambda>(first_is_array, data_is_array).
       if first_is_array then
         and_then (inspect (\<lambda>h. elements h d0)) (\<lambda>first.
         and_then (inspect (\<lambda>h. Inr (case names_of h columnsArg of
                                         Inr cs \<Rightarrow> length cs = length first
                                       | Inl e \<Rightarrow> False))) (\<lambda>use_argument.
         and_then (if use_argument then succeed columnsArg
                   else and_then (allocate (NamesCell (auto_columns (length first))))
                          (\<lambda>a. succeed (VRef a))) (\<lambda>cols.
         and_then (assign this (set_columns cols)) (\<lambda>u.
         and_then (inspect (\<lambda>h. elements h d)) (\<lambda>rows.
         and_then (inspect (\<lambda>h. names_of h cols)) (\<lambda>names.
         and_then (map_effect (fill_row names) rows) (\<lambda>objs.
         and_then (allocate (ArrayCell objs)) (\<lambda>newData.
         and_then (assign this (set_data (VRef newData))) (\<lambda>u.
         finish_instance this)))))))))
       else if data_is_array then
         and_then (if is_truthy d0
                   then and_then (inspect (\<lambda>h. Inr (keys_of h d0))) (\<lambda>ks.
                        and_then (allocate (NamesCell ks)) (\<lambda>a. succeed (VRef a)))
                   else succeed columnsArg) (\<lambda>cols.
         and_then (assign this (set_columns cols)) (\<lambda>u.
         and_then (assign this (set_data d)) (\<lambda>u.
         finish_instance this)))
       else fail InvalidInputFormat)))"

text \<open>
  \<open>select\<close>: \<open>newColumns\<close> is the array that \<open>filter\<close> returns, \<open>newData\<close> the array that
  \<open>map\<close> returns, of fresh objects filled property by property.
\<close>

definition copy_row :: "string list \<Rightarrow> val \<Rightarrow> val effect" where
  "copy_row cols row =
     and_then (allocate (ObjectCell [])) (\<lambda>newRow.
     and_then (fold_effect (\<lambda>column u.
                 and_then (inspect (\<lambda>h. get_prop h row column)) (\<lambda>v.
                 assign newRow (put_prop column v))) cols ()) (\<lambda>u.
     succeed (VRef newRow)))"

definition select_st :: "val \<Rightarrow> name_arg \<Rightarrow> val effect" where
  "select_st this arg =
     and_then (inspect (\<lambda>h. column_names h this)) (\<lambda>cols.
     and_then (allocate (NamesCell (filter (\<lambda>column. column \<in> set cols) (to_names arg)))) (\<lambda>newColumns.
     and_then (inspect (\<lambda>h. names_of h (VRef newColumns))) (\<lambda>names.
     and_then (inspect (\<lambda>h. rows_of h this)) (\<lambda>rows.
     and_then (map_effect (copy_row names) rows) (\<lambda>newRows.
     and_then (allocate (ArrayCell newRows)) (\<lambda>newData.
     construct (VRef newData) (VRef newColumns)))))))"

text \<open>
  \<open>filter\<close>: the array that \<open>Array.prototype.filter\<close> returns holds the receiver's own row
  objects; \<open>this.columns\<close> is passed on as it is. The condition reads the store.
\<close>

definition filter_st :: "val \<Rightarrow> (store \<Rightarrow> val \<Rightarrow> bool) \<Rightarrow> val effect" where
  "filter_st this condition =
     and_then (inspect (\<lambda>h. rows_of h this)) (\<lambda>rows.
     and_then (inspect (\<lambda>h. Inr (filter (condition h) rows))) (\<lambda>kept.
     and_then (allocate (ArrayCell kept)) (\<lambda>filteredData.
     and_then (inspect (\<lambda>h. field_columns h this)) (\<lambda>cols.
     construct (VRef filteredData) cols))))"

text \<open>
  \<open>sortBy\<close>: \<open>[...this.data]\<close> is a fresh array with the receiver's row objects, and
  \<open>sort\<close> assigns to that array. The operator \<open><\<close> on stored values is the parameter
  \<open>lt\<close>.
\<close>

definition prop_or_undefined :: "store \<Rightarrow> val \<Rightarrow> string \<Rightarrow> val" where
  "prop_or_undefined h row column = (case get_prop h row column of Inr v \<Rightarrow> v | Inl e \<Rightarrow> VUndefined)"

fun compare_stored :: "(val \<Rightarrow> val \<Rightarrow> bool) \<Rightarrow> store \<Rightarrow> bool \<Rightarrow> string list \<Rightarrow> val \<Rightarrow> val \<Rightarrow> int" where
  "compare_stored lt h ascending [] row1 row2 = 0"
| "compare_stored lt h ascending (column # rest) row1 row2 =
     (let value1 = prop_or_undefined h row1 column; value2 = prop_or_undefined h row2 column
      in if lt value1 value2 then (if ascending then - 1 else 1)
         else if lt value2 value1 then (if ascending then 1 else - 1)
         else compare_stored lt h ascending rest row1 row2)"

definition sorted_content :: "(store \<Rightarrow> val \<Rightarrow> val \<Rightarrow> bool) \<Rightarrow> bool \<Rightarrow> string list \<Rightarrow> val list
    \<Rightarrow> store \<Rightarrow> error + val list" where
  "sorted_content lt ascending cols xs h =
     (let compared = filter (\<lambda>x. x \<noteq> VUndefined) xs
      in if cols \<noteq> [] \<and> 2 \<le> length compared \<and> VNull \<in> set compared then Inl TypeError
         else Inr (sort_by (compare_stored (lt h) h ascending cols) compared
                   @ filter (\<lambda>x. x = VUndefined) xs))"

definition sortBy_st :: "(store \<Rightarrow> val \<Rightarrow> val \<Rightarrow> bool) \<Rightarrow> val \<Rightarrow> string list \<Rightarrow> bool option
    \<Rightarrow> val effect" where
  "sortBy_st lt this cols arg =
     and_then (inspect (\<lambda>h. rows_of h this)) (\<lambda>rows.
     and_then (allocate (ArrayCell rows)) (\<lambda>sortData.
     and_then (inspect (sorted_content lt (case arg of None \<Rightarrow> True | Some b \<Rightarrow> b) cols rows)) (\<lambda>sorted.
     and_then (assign sortData (\<lambda>c. ArrayCell sorted)) (\<lambda>u.
     and_then (inspect (\<lambda>h. field_columns h this)) (\<lambda>columns.
     construct (VRef sortData) columns)))))"

text \<open>
  \<open>groupBy\<close>: the \<open>Map\<close> is local to the call and is the list of its entries, a key and
  the address of the key's bucket; a bucket is a fresh array, and \<open>push\<close> assigns to it.
  \<open>JSON.stringify\<close> on stored values is the parameter \<open>stringify\<close>.
\<close>

definition key_text :: "(store \<Rightarrow> val list \<Rightarrow> string) \<Rightarrow> string list \<Rightarrow> val \<Rightarrow> store \<Rightarrow> error + string" where
  "key_text stringify cols row h =
     (case collect (map (\<lambda>column. get_prop h row column) cols) of
        Inl e \<Rightarrow> Inl e
      | Inr vs \<Rightarrow> Inr (stringify h vs))"

definition group_step :: "(store \<Rightarrow> val list \<Rightarrow> string) \<Rightarrow> string list \<Rightarrow> val
    \<Rightarrow> (string \<times> nat) list \<Rightarrow> (string \<times> nat) list effect" where
  "group_step stringify cols row groups =
     and_then (inspect (key_text stringify cols row)) (\<lambda>key.
       case map_of groups key of
         None \<Rightarrow>
           and_then (allocate (ArrayCell [])) (\<lambda>bucket.
           and_then (assign bucket (push row)) (\<lambda>u.
           succeed (groups @ [(key, bucket)])))
       | Some bucket \<Rightarrow>
           and_then (assign bucket (push row)) (\<lambda>u. succeed groups))"

definition groupBy_st :: "(store \<Rightarrow> val list \<Rightarrow> string) \<Rightarrow> val \<Rightarrow> string list \<Rightarrow> val effect" where
  "groupBy_st stringify this cols =
     and_then (inspect (\<lambda>h. rows_of h this)) (\<lambda>rows.
     and_then (fold_effect (group_step stringify cols) rows []) (\<lambda>groups.
     and_then (allocate (ArrayCell (map (\<lambda>(key, bucket). VRef bucket) groups))) (\<lambda>groupData.
     and_then (inspect (\<lambda>h. field_columns h this)) (\<lambda>columns.
     construct (VRef groupData) columns))))"

text \<open>
  The frame of a computation: started in a store with at least \<open>n\<close> cells it leaves the
  first \<open>n\<close> cells as they are, and its result, when it returns one, satisfies \<open>P\<close>.
\<close>

definition frame :: "nat \<Rightarrow> ('a \<Rightarrow> bool) \<Rightarrow> 'a effect \<Rightarrow> bool" where
  "frame n P m =
     (\<forall>h. n \<le> length h \<longrightarrow>
        (case m h of (r, h') \<Rightarrow>
           n \<le> length h' \<and> take n h' = take n h \<and> (case r of Inl e \<Rightarrow> True | Inr x \<Rightarrow> P x)))"

definition fresh_ref :: "nat \<Rightarrow> val \<Rightarrow> bool" where
  "fresh_ref n v = (case v of VRef a \<Rightarrow> n \<le> a | _ \<Rightarrow> False)"

text \<open>The entries of the \<open>Map\<close> of \<open>groupBy\<close> whose buckets were allocated at or after address \<open>n\<close>.\<close>

definition fresh_buckets :: "nat \<Rightarrow> (string \<times> nat) list \<Rightarrow> bool" where
  "fresh_buckets n groups = list_all (\<lambda>(key, bucket). n \<le> bucket) groups"

subsection \<open>The receiver in the store\<close>

text \<open>
  What a table is made of: its instance, the arrays and the object its three fields refer
  to, and the row objects in its data array. \<open>table_view\<close> pairs each of these references
  with the cell it refers to, in this order, so that two stores give the same view of a
  table when its columns, its rows (their values and their order) and its dtypes are the
  same in both. A reference is valid in a store when it refers to a cell of the store.
\<close>

definition valid_ref :: "store \<Rightarrow> val \<Rightarrow> bool" where
  "valid_ref h v = (case v of VRef a \<Rightarrow> a < length h | _ \<Rightarrow> True)"

definition receiver_cells :: "store \<Rightarrow> val \<Rightarrow> val list" where
  "receiver_cells h this =
     (case cell_of h this of
        Some (FrameCell c d t) \<Rightarrow>
          this # c # d # t # (case elements h d of Inr rows \<Rightarrow> rows | Inl e \<Rightarrow> [])
      | _ \<Rightarrow> [this])"

definition table_view :: "store \<Rightarrow> val \<Rightarrow> (val \<times> cell option) list" where
  "table_view h this = map (\<lambda>v. (v, cell_of h v)) (receiver_cells h this)"

text \<open>
  A computation \<open>m\<close> started in the store \<open>h\<close> leaves the store as it was: every cell of \<open>h\<close>
  is the same afterwards, whether \<open>m\<close> returns or throws, so the view of the receiver is
  the same; and what \<open>m\<close> returns is a reference to a cell that it allocated.
\<close>

definition leaves_store :: "store \<Rightarrow> val \<Rightarrow> val effect \<Rightarrow> bool" where
  "leaves_store h this m =
     ((\<forall>a<length h. snd (m h) ! a = h ! a)
      \<and> length h \<le> length (snd (m h))
      \<and> (list_all (valid_ref h) (receiver_cells h this)
            \<longrightarrow> table_view (snd (m h)) this = table_view h this)
      \<and> (case fst (m h) of Inl e \<Rightarrow> True | Inr r \<Rightarrow> fresh_ref (length h) r))"

text \<open>
  A table that the methods can work on: an instance whose \<open>columns\<close> is an array of names
  and whose \<open>data\<close> is an array with no \<open>undefined\<close> and no \<open>null\<close> in it, so that
  \<open>row[column]\<close> can be read in every row. The constructor returns only such tables when
  it is given at least one column.
\<close>

definition not_nullish :: "val \<Rightarrow> bool" where
  "not_nullish v = (v \<noteq> VUndefined \<and> v \<noteq> VNull)"

definition holds_names :: "store \<Rightarrow> val \<Rightarrow> bool" where
  "holds_names h v = (case names_of h v of Inr ns \<Rightarrow> True | Inl e \<Rightarrow> False)"

definition holds_rows :: "store \<Rightarrow> val \<Rightarrow> bool" where
  "holds_rows h v =
     (case cell_of h v of Some (ArrayCell rows) \<Rightarrow> list_all not_nullish rows | _ \<Rightarrow> False)"

definition is_table :: "store \<Rightarrow> val \<Rightarrow> bool" where
  "is_table h this =
     (case cell_of h this of
        Some (FrameCell c d t) \<Rightarrow> holds_names h c \<and> holds_rows h d
      | _ \<Rightarrow> False)"

text \<open>
  A computation returns, with a result and a store that satisfy \<open>Q\<close>, from every store that
  satisfies \<open>P\<close>: it does not throw. \<open>returns_table\<close> says so of a computation started in \<open>h\<close>
  whose result is a table, at a cell that the computation allocated.
\<close>

definition returns :: "(store \<Rightarrow> bool) \<Rightarrow> 'a effect \<Rightarrow> ('a \<Rightarrow> store \<Rightarrow> bool) \<Rightarrow> bool" where
  "returns P m Q = (\<forall>h. P h \<longrightarrow> (case m h of (Inr x, h') \<Rightarrow> Q x h' | (Inl e, h') \<Rightarrow> False))"

definition returns_table :: "store \<Rightarrow> val effect \<Rightarrow> bool" where
  "returns_table h m =
     (case m h of
        (Inr r, h') \<Rightarrow> fresh_ref (length h) r \<and> is_table h' r
      | (Inl e, h') \<Rightarrow> False)"

text \<open>
  The table of the repository's tests in a store: the column array at 0, the three rows
  at 1 to 3, the data array at 4, the dtypes at 5 and the instance at 6. \<open>number_less\<close> is
  \<open><\<close> on numbers.
\<close>

definition test_store :: store where
  "test_store =
     [NamesCell [''ID'', ''Name'', ''Age''],
      ObjectCell [(''ID'', VNum 1), (''Name'', VStr ''John''), (''Age'', VNum 25)],
      ObjectCell [(''ID'', VNum 2), (''Name'', VStr ''Jane''), (''Age'', VNum 30)],
      ObjectCell [(''ID'', VNum 3), (''Name'', VStr ''Sam''), (''Age'', VNum 28)],
      ArrayCell [VRef 1, VRef 2, VRef 3],
      ObjectCell [(''ID'', VStr ''number''), (''Name'', VStr ''string''), (''Age'', VStr ''number'')],
      FrameCell (VRef 0) (VRef 4) (VRef 5)]"

fun number_less :: "val \<Rightarrow> val \<Rightarrow> bool" where
  "number_less (VNum a) (VNum b) = (a < b)"
| "number_less v w = False"

text \<open>
  Reading a stored value back as a value of the first model, references followed to the
  given depth, and a stored table as a \<open>dataframe\<close>: the link between the two models.
\<close>

fun read_val :: "nat \<Rightarrow> store \<Rightarrow> val \<Rightarrow> jsval" where
  "read_val depth h VUndefined = Undefined"
| "read_val depth h VNull = Null"
| "read_val depth h (VBool b) = Bool b"
| "read_val depth h (VNum n) = Num n"
| "read_val depth h (VStr s) = Str s"
| "read_val 0 h (VRef a) = Undefined"
| "read_val (Suc depth) h (VRef a) =
     (case cell_of h (VRef a) of
        Some (ArrayCell xs) \<Rightarrow> Arr (map (read_val depth h) xs)
      | Some (NamesCell ns) \<Rightarrow> Arr (map Str ns)
      | Some (ObjectCell kvs) \<Rightarrow> Obj (map (\<lambda>(k, v). (k, read_val depth h v)) kvs)
      | _ \<Rightarrow> Undefined)"

definition read_table :: "nat \<Rightarrow> store \<Rightarrow> val \<Rightarrow> dataframe option" where
  "read_table depth h this =
     (case cell_of h this of
        Some (FrameCell c d t) \<Rightarrow>
          (case (names_of h c, read_val (Suc depth) h d, read_val (Suc depth) h t) of
             (Inr ns, Arr rows, Obj tags) \<Rightarrow> Some \<lparr>columns = ns, data = rows, dtypes = tags\<rparr>
           | _ \<Rightarrow> None)
      | _ \<Rightarrow> None)"

definition read_result :: "nat \<Rightarrow> (error + val) \<times> store \<Rightarrow> (error + dataframe) option" where
  "read_result depth out =
     (case out of
        (Inl e, h) \<Rightarrow> Some (Inl e)
      | (Inr r, h) \<Rightarrow> map_option Inr (read_table depth h r))"

section \<open>Properties: row access\<close>

lemma getRow_in_range:
  "0 \<le> i \<Longrightarrow> i < int (length (data df)) \<Longrightarrow> getRow df i = Inr (data df ! nat i)"
  by (simp add: getRow_def js_index_def)

lemma getRow_fails_iff:
  "getRow df i = Inl IndexOutOfRange \<longleftrightarrow> int (length (data df)) < i"
  by (simp add: getRow_def)

text \<open>
  C1. The claim: \<open>getRow(index)\<close> fails with \<open>IndexOutOfRange\<close> exactly when \<open>index\<close> is outside
  \<open>[0, rowCount)\<close>. The code at the index \<open>rowCount\<close>: on the three-row test table,
  \<open>getRow(3)\<close> does not fail, it returns \<open>undefined\<close> (the guard compares with \<open>>\<close>). The
  same happens at every negative index, which the guard does not look at.
\<close>

theorem getRow_at_rowCount_returns_undefined:
  "getRow test_df 3 = Inr Undefined \<and> getRow test_df (- 1) = Inr Undefined
   \<and> getRow test_df 4 = Inl IndexOutOfRange"
  by (simp add: getRow_def js_index_def test_df_def test_rows_def)

lemma head_take:
  "0 \<le> n \<Longrightarrow> fst (head df (Some n) console) = take (nat n) (data df)"
  by (auto simp: head_def js_slice_def Let_def min_def)

lemma tail_positive:
  "0 < n \<Longrightarrow> fst (tail df (Some n) console)
     = drop (length (data df) - nat n) (data df)"
  by (auto simp: tail_def js_slice_def Let_def max_def nat_diff_distrib)

text \<open>
  C4. The claim: for every non-negative \<open>n\<close>, \<open>tail(n)\<close> returns the last
  \<open>min(n, rowCount)\<close> rows. The code at \<open>n = 0\<close>: \<open>slice(-0)\<close> is \<open>slice(0)\<close>, the whole
  array, so \<open>tail(0)\<close> on the three-row test table returns all three rows, not none.
  (\<open>head(0)\<close> returns no row.)
\<close>

theorem tail_zero_returns_all_rows:
  "fst (tail test_df (Some 0) []) = test_rows \<and> fst (head test_df (Some 0) []) = []"
  by (simp add: tail_def head_def js_slice_def Let_def test_df_def test_rows_def)

section \<open>Properties: construction and type tags\<close>

lemma map_of_obj_set: "map_of (obj_set kvs k v) = (map_of kvs)(k \<mapsto> v)"
  by (induction kvs) (auto simp: fun_eq_iff)

lemma js_prop_obj_set:
  "js_prop (Obj (obj_set kvs k v)) k' = (if k' = k then v else js_prop (Obj kvs) k')"
  by (simp add: map_of_obj_set)

lemma foldl_set_add_set: "set (foldl set_add acc xs) = set acc \<union> set xs"
  by (induction xs arbitrary: acc) (auto simp: set_add_def)

lemma foldl_set_add_distinct: "distinct acc \<Longrightarrow> distinct (foldl set_add acc xs)"
  by (induction xs arbitrary: acc) (auto simp: set_add_def)

lemma set_new_Set: "set (new_Set xs) = set xs"
  by (simp add: new_Set_def foldl_set_add_set)

lemma distinct_new_Set: "distinct (new_Set xs)"
  by (simp add: new_Set_def foldl_set_add_distinct)

lemma length_new_Set: "length (new_Set xs) = card (set xs)"
  using distinct_card [OF distinct_new_Set, of xs] by (simp add: set_new_Set)

lemma new_Set_single:
  assumes "xs \<noteq> []" "\<forall>x\<in>set xs. x = t"
  shows "length (new_Set xs) = 1 \<and> new_Set xs ! 0 = t"
proof -
  from assms have s: "set xs = {t}" by (cases xs) auto
  then have l: "length (new_Set xs) = 1" by (simp add: length_new_Set)
  then have "new_Set xs ! 0 \<in> set (new_Set xs)" by (metis nth_mem zero_less_one)
  with s show ?thesis using l by (simp add: set_new_Set)
qed

lemma new_Set_mixed:
  assumes "a \<in> set xs" "b \<in> set xs" "a \<noteq> b"
  shows "length (new_Set xs) \<noteq> 1"
proof
  assume "length (new_Set xs) = 1"
  then have "card (set xs) = 1" by (simp add: length_new_Set)
  then obtain t where "set xs = {t}" by (auto simp: card_1_singleton_iff)
  with assms show False by auto
qed

lemma new_Set_empty: "new_Set [] = []"
  by (simp add: new_Set_def)







lemma getColumn_data_cong: "data a = data b \<Longrightarrow> getColumn a c = getColumn b c"
  by (simp add: getColumn_def)

lemma detectColumnType_data_cong:
  "data a = data b \<Longrightarrow> detectColumnType a c = detectColumnType b c"
  by (simp add: detectColumnType_def getColumn_data_cong [of a b])

lemma detect_loop_data_cong:
  "data a = data b \<Longrightarrow> detect_loop a cs dts = detect_loop b cs dts"
  by (induction cs arbitrary: dts) (auto simp: detectColumnType_data_cong [of a b] split: sum.splits)

lemma detectColumnTypes_cong:
  "columns a = columns b \<Longrightarrow> data a = data b \<Longrightarrow> detectColumnTypes a = detectColumnTypes b"
  by (simp add: detectColumnTypes_def detect_loop_data_cong [of a b])

lemma detect_loop_other:
  "detect_loop df cs dts = Inr dts' \<Longrightarrow> c \<notin> set cs \<Longrightarrow> map_of dts' c = map_of dts c"
  by (induction cs arbitrary: dts) (auto simp: map_of_obj_set split: sum.splits)

lemma detect_loop_lookup:
  "detect_loop df cs dts = Inr dts' \<Longrightarrow> c \<in> set cs
     \<Longrightarrow> \<exists>t. detectColumnType df c = Inr t \<and> map_of dts' c = Some (Str t)"
proof (induction cs arbitrary: dts)
  case Nil
  then show ?case by simp
next
  case (Cons a cs)
  from Cons.prems(1) obtain t where t: "detectColumnType df a = Inr t"
    and rest: "detect_loop df cs (obj_set dts a (Str t)) = Inr dts'"
    by (auto split: sum.splits)
  show ?case
  proof (cases "c \<in> set cs")
    case True
    then show ?thesis using Cons.IH [OF rest] by simp
  next
    case False
    with Cons.prems(2) have "c = a" by simp
    with False t detect_loop_other [OF rest False] show ?thesis
      by (simp add: map_of_obj_set)
  qed
qed

lemma detectColumnType_Inr:
  "detectColumnType df c = Inr t \<Longrightarrow>
     \<exists>vals. getColumn df c = Inr vals
        \<and> t = (if length (new_Set (map typeof vals)) = 1 then new_Set (map typeof vals) ! 0 else ''mixed'')"
  by (auto simp: detectColumnType_def Let_def split: sum.splits)


lemma show_nat_small [simp]: "n < 10 \<Longrightarrow> show_nat n = [digit_char n]"
  by (simp add: show_nat.simps)





lemma fresh_dtypes_lookup:
  assumes fresh: "detectColumnTypes df = Inr (dtypes df)" and c: "c \<in> set (columns df)"
  shows "\<exists>vals. getColumn df c = Inr vals
           \<and> dtype df c = Str (if length (new_Set (map typeof vals)) = 1
                               then new_Set (map typeof vals) ! 0 else ''mixed'')"
proof -
  from fresh have "detect_loop df (columns df) [] = Inr (dtypes df)"
    by (simp add: detectColumnTypes_def)
  from detect_loop_lookup [OF this c] obtain t where
    t: "detectColumnType df c = Inr t" and m: "map_of (dtypes df) c = Some (Str t)" by blast
  from detectColumnType_Inr [OF t] m show ?thesis by (auto simp: dtype_def)
qed

lemma fresh_dtypes_ok:
  assumes fresh: "detectColumnTypes df = Inr (dtypes df)" and c: "c \<in> set (columns df)"
  shows "\<exists>vals. getColumn df c = Inr vals
     \<and> (\<forall>t. vals \<noteq> [] \<and> (\<forall>v\<in>set vals. typeof v = t) \<longrightarrow> dtype df c = Str t)
     \<and> ((\<exists>v\<in>set vals. \<exists>w\<in>set vals. typeof v \<noteq> typeof w) \<longrightarrow> dtype df c = Str ''mixed'')
     \<and> (vals = [] \<longrightarrow> dtype df c = Str ''mixed'')"
proof -
  from fresh_dtypes_lookup [OF fresh c] obtain vals where
    g: "getColumn df c = Inr vals" and
    d: "dtype df c = Str (if length (new_Set (map typeof vals)) = 1
                               then new_Set (map typeof vals) ! 0 else ''mixed'')" by blast
  have a: "dtype df c = Str t" if "vals \<noteq> []" "\<forall>v\<in>set vals. typeof v = t" for t
  proof -
    from that have "map typeof vals \<noteq> []" "\<forall>x\<in>set (map typeof vals). x = t" by auto
    from new_Set_single [OF this] d show ?thesis by simp
  qed
  have b: "dtype df c = Str ''mixed''" if "\<exists>v\<in>set vals. \<exists>w\<in>set vals. typeof v \<noteq> typeof w"
  proof -
    from that obtain v w where "v \<in> set vals" "w \<in> set vals" "typeof v \<noteq> typeof w" by blast
    then have "typeof v \<in> set (map typeof vals)" "typeof w \<in> set (map typeof vals)" by auto
    from new_Set_mixed [OF this \<open>typeof v \<noteq> typeof w\<close>] d show ?thesis by simp
  qed
  have e: "dtype df c = Str ''mixed''" if "vals = []"
    using that d by (simp add: new_Set_empty)
  from g a b e show ?thesis by blast
qed

lemma finish_fresh:
  assumes "finish cols rows = Inr df"
  shows "detectColumnTypes df = Inr (dtypes df)"
proof -
  let ?t0 = "\<lparr>columns = cols, data = rows, dtypes = []\<rparr>"
  from assms obtain dts where d: "detectColumnTypes ?t0 = Inr dts"
    and df: "df = ?t0\<lparr>dtypes := dts\<rparr>"
    by (auto simp: finish_def Let_def split: sum.splits)
  have "detectColumnTypes df = detectColumnTypes ?t0"
    by (rule detectColumnTypes_cong) (simp_all add: df)
  with d df show ?thesis by simp
qed

lemma DataFrame_new_finish:
  "DataFrame_new d ca = Inr df \<Longrightarrow> \<exists>cols rows. finish cols rows = Inr df"
  by (cases d; cases "js_at d 0")
     (auto simp: DataFrame_new_def Let_def split: if_splits option.splits)

lemma DataFrame_new_fresh:
  "DataFrame_new d ca = Inr df \<Longrightarrow> detectColumnTypes df = Inr (dtypes df)"
  using DataFrame_new_finish finish_fresh by blast

lemma renameColumns_fresh:
  assumes "renameColumns df0 m = Inr df"
  shows "detectColumnTypes df = Inr (dtypes df)"
proof -
  from assms obtain t0 dts where d: "detectColumnTypes t0 = Inr dts"
    and df: "df = t0\<lparr>dtypes := dts\<rparr>"
    by (auto simp: renameColumns_def Let_def split: if_splits sum.splits)
  have "detectColumnTypes df = detectColumnTypes t0"
    by (rule detectColumnTypes_cong) (simp_all add: df)
  with d df show ?thesis by simp
qed

lemma dropColumns_fresh:
  assumes "dropColumns df0 a = Inr df"
  shows "detectColumnTypes df = Inr (dtypes df)"
proof -
  from assms obtain t0 dts where d: "detectColumnTypes t0 = Inr dts"
    and df: "df = t0\<lparr>dtypes := dts\<rparr>"
    by (auto simp: dropColumns_def Let_def split: if_splits sum.splits)
  have "detectColumnTypes df = detectColumnTypes t0"
    by (rule detectColumnTypes_cong) (simp_all add: df)
  with d df show ?thesis by simp
qed




lemma detect_loop_no_rows:
  "data df = [] \<Longrightarrow> \<exists>dts'. detect_loop df cs dts = Inr dts'"
  by (induction cs arbitrary: dts) (auto simp: detectColumnType_def getColumn_def Let_def)

lemma finish_no_rows:
  "\<exists>dts. finish cols [] = Inr \<lparr>columns = cols, data = [], dtypes = dts\<rparr>"
  using detect_loop_no_rows [of "\<lparr>columns = cols, data = [], dtypes = []\<rparr>" cols "[]"]
  by (auto simp: finish_def detectColumnTypes_def Let_def)

lemma fresh_no_rows_mixed:
  assumes "detectColumnTypes df = Inr (dtypes df)" "data df = []" "c \<in> set (columns df)"
  shows "dtype df c = Str ''mixed''"
proof -
  from fresh_dtypes_ok [OF assms(1,3)] obtain vals where
    "getColumn df c = Inr vals" "vals = [] \<longrightarrow> dtype df c = Str ''mixed''" by blast
  with assms(2) show ?thesis by (auto simp: getColumn_def)
qed

text \<open>
  C10. A table without rows has the tag \<open>mixed\<close> at every column: after construction,
  after \<open>renameColumns\<close> and after \<open>dropColumns\<close>, and in the table that \<open>filter\<close> returns
  when the condition rejects every row (that table keeps the receiver's columns).
\<close>

theorem zero_rows_all_mixed:
  "((DataFrame_new d ca = Inr df \<or> renameColumns df0 m = Inr df \<or> dropColumns df0 a = Inr df)
      \<and> data df = [] \<longrightarrow> (\<forall>c\<in>set (columns df). dtype df c = Str ''mixed''))
   \<and> ((\<forall>row\<in>set (data df1). \<not> condition row) \<longrightarrow>
        (\<exists>df'. filter_df df1 condition = Inr df' \<and> data df' = []
            \<and> columns df' = columns df1
            \<and> (\<forall>c\<in>set (columns df'). dtype df' c = Str ''mixed'')))"
proof (intro conjI impI)
  assume a: "(DataFrame_new d ca = Inr df \<or> renameColumns df0 m = Inr df
       \<or> dropColumns df0 a = Inr df) \<and> data df = []"
  then have fresh: "detectColumnTypes df = Inr (dtypes df)"
    using DataFrame_new_fresh renameColumns_fresh dropColumns_fresh by blast
  from a fresh show "\<forall>c\<in>set (columns df). dtype df c = Str ''mixed''"
    by (blast intro: fresh_no_rows_mixed)
next
  assume "\<forall>row\<in>set (data df1). \<not> condition row"
  then have e: "filter condition (data df1) = []" by (simp add: filter_empty_conv)
  obtain dts where f: "finish (columns df1) [] = Inr \<lparr>columns = columns df1, data = [], dtypes = dts\<rparr>"
    using finish_no_rows by blast
  let ?df = "\<lparr>columns = columns df1, data = [], dtypes = dts\<rparr>"
  have new: "filter_df df1 condition = Inr ?df"
    by (simp add: filter_df_def e DataFrame_new_def nullish_def js_index_def f)
  from DataFrame_new_fresh [of "Arr []" "Some (columns df1)" ?df] new e
  have fresh: "detectColumnTypes ?df = Inr (dtypes ?df)" by (simp add: filter_df_def)
  have "\<forall>c\<in>set (columns ?df). dtype ?df c = Str ''mixed''"
    using fresh_no_rows_mixed [OF fresh] by simp
  with new show "\<exists>df'. filter_df df1 condition = Inr df' \<and> data df' = []
            \<and> columns df' = columns df1
            \<and> (\<forall>c\<in>set (columns df'). dtype df' c = Str ''mixed'')"
    by (intro exI [of _ ?df]) simp
qed

text \<open>
  The constructor on no rows and two column names, and \<open>filter\<close> with a condition that is
  always false on the test table.
\<close>

theorem zero_rows_all_mixed_witness:
  "DataFrame_new (Arr []) (Some [''a'', ''b'']) =
      Inr \<lparr>columns = [''a'', ''b''], data = [],
           dtypes = [(''a'', Str ''mixed''), (''b'', Str ''mixed'')]\<rparr>
   \<and> filter_df test_df (\<lambda>row. False) =
      Inr \<lparr>columns = [''ID'', ''Name'', ''Age''], data = [],
           dtypes = [(''ID'', Str ''mixed''), (''Name'', Str ''mixed''), (''Age'', Str ''mixed'')]\<rparr>
   \<and> dtype \<lparr>columns = [''a'', ''b''], data = [],
           dtypes = [(''a'', Str ''mixed''), (''b'', Str ''mixed'')]\<rparr> ''b'' = Str ''mixed''"
proof -
  let ?df = "\<lparr>columns = [''a'', ''b''], data = [],
           dtypes = [(''a'', Str ''mixed''), (''b'', Str ''mixed'')]\<rparr>"
  have n: "DataFrame_new (Arr []) (Some [''a'', ''b'']) = Inr ?df"
    by (simp add: DataFrame_new_def nullish_def js_index_def finish_def detectColumnTypes_def
        detectColumnType_def getColumn_def new_Set_def Let_def)
  have f: "filter_df test_df (\<lambda>row. False) =
      Inr \<lparr>columns = [''ID'', ''Name'', ''Age''], data = [],
           dtypes = [(''ID'', Str ''mixed''), (''Name'', Str ''mixed''), (''Age'', Str ''mixed'')]\<rparr>"
    by (simp add: filter_df_def test_df_def DataFrame_new_def nullish_def js_index_def finish_def
        detectColumnTypes_def detectColumnType_def getColumn_def new_Set_def Let_def)
  from zero_rows_all_mixed [of "Arr []" "Some [''a'', ''b'']" ?df test_df "[]" "Names []"
      test_df "\<lambda>row. False"] n
  have "\<forall>c\<in>set (columns ?df). dtype ?df c = Str ''mixed''" by simp
  then have "dtype ?df ''b'' = Str ''mixed''" by simp
  with n f show ?thesis by simp
qed

section \<open>Properties: columns that are not there\<close>





lemma aggregate_loop_functions:
  "getColumn df c = Inr vals \<Longrightarrow> \<forall>(k, r)\<in>set aggs. k = c \<and> (\<exists>f. r = Function f)
   \<Longrightarrow> \<exists>res. aggregate_loop df aggs acc = Inr res"
  by (induction df aggs acc rule: aggregate_loop.induct) auto






text \<open>
  The constructor establishes the invariant on inputs of the two shapes of its contract:
  a row built from an array has exactly the column names as its keys, and uniform records
  have the keys of the first record, which are the columns.
\<close>

lemma finish_fields: "finish cols rows = Inr df \<Longrightarrow> columns df = cols \<and> data df = rows"
  by (auto simp: finish_def Let_def split: sum.splits)

lemma keys_obj_set: "fst ` set (obj_set kvs k v) = insert k (fst ` set kvs)"
  by (simp add: dom_map_of_conv_image_fst [symmetric] map_of_obj_set)

lemma keys_foldl_obj_set:
  "fst ` set (foldl (\<lambda>obj (c, i). obj_set obj c (f i)) acc xs) = fst ` set acc \<union> fst ` set xs"
proof (induction xs arbitrary: acc)
  case Nil
  show ?case by simp
next
  case (Cons x xs)
  obtain c i where x: "x = (c, i)" by (cases x)
  have "fst ` set (foldl (\<lambda>obj (c, i). obj_set obj c (f i)) (obj_set acc c (f i)) xs)
      = insert c (fst ` set acc) \<union> fst ` set xs"
    by (simp only: Cons.IH keys_obj_set)
  with x show ?case by simp
qed

lemma keys_row_of: "is_record (row_of cols row) \<and> set (object_keys (row_of cols row)) = set cols"
proof -
  have "fst ` set (zip cols [0..<length cols]) = set cols"
    by (metis diff_zero length_upt map_fst_zip set_map)
  then show ?thesis
    using keys_foldl_obj_set [of "\<lambda>i. js_at row i" "[]" "zip cols [0..<length cols]"]
    by (simp add: row_of_def)
qed

lemma constructor_rows_within_columns:
  assumes new: "DataFrame_new d ca = Inr df"
    and shape: "spec_array_of_arrays d \<or> spec_uniform_records d"
  shows "rows_within_columns df"
proof -
  from shape obtain rows where d: "d = Arr rows"
    by (cases d) (auto simp: spec_array_of_arrays_def spec_uniform_records_def)
  show ?thesis
  proof (cases rows)
    case Nil
    with new d obtain cols where "finish cols [] = Inr df"
      by (auto simp: DataFrame_new_def nullish_def js_index_def split: option.splits)
    then have "data df = []" by (simp add: finish_fields)
    then show ?thesis by (simp add: rows_within_columns_def)
  next
    case (Cons r rs)
    from shape show ?thesis
    proof
      assume "spec_array_of_arrays d"
      with d Cons obtain first where r: "r = Arr first"
        by (cases r) (auto simp: spec_array_of_arrays_def)
      with new d Cons obtain cols where "finish cols (map (row_of cols) rows) = Inr df"
        by (auto simp: DataFrame_new_def nullish_def js_index_def Let_def split: if_splits option.splits)
      then have "columns df = cols" "data df = map (row_of cols) rows"
        by (simp_all add: finish_fields)
      then show ?thesis
        using keys_row_of [of cols] by (auto simp: rows_within_columns_def list_all_iff)
    next
      assume u: "spec_uniform_records d"
      with d Cons obtain kvs where r: "r = Obj kvs"
        by (cases r) (auto simp: spec_uniform_records_def)
      with new d Cons have "finish (object_keys r) rows = Inr df"
        by (auto simp: DataFrame_new_def nullish_def js_index_def)
      then have "columns df = object_keys (hd rows)" "data df = rows"
        using Cons by (simp_all add: finish_fields)
      with u d show ?thesis
        by (auto simp: rows_within_columns_def spec_uniform_records_def list_all_iff)
    qed
  qed
qed

section \<open>Properties: mode\<close>

lemma foldr_max_upper: "x \<in> set ys \<Longrightarrow> f x \<le> foldr (\<lambda>x m. max (f x) m) ys (0::nat)"
  by (induction ys) (auto simp: max_def)

lemma foldr_max_attained:
  "foldr (\<lambda>x m. max (f x) m) ys (0::nat) = 0 \<or> (\<exists>x\<in>set ys. f x = foldr (\<lambda>x m. max (f x) m) ys 0)"
  by (induction ys) (auto simp: max_def)

lemma count_le_max_count: "count_list xs x \<le> max_count xs"
proof (cases "x \<in> set xs")
  case True
  then show ?thesis unfolding max_count_def by (rule foldr_max_upper)
next
  case False
  then show ?thesis by (simp add: count_list_0_iff)
qed

lemma max_count_attained: "xs \<noteq> [] \<Longrightarrow> \<exists>x\<in>set xs. count_list xs x = max_count xs"
proof -
  assume ne: "xs \<noteq> []"
  then obtain y where y: "y \<in> set xs" by (cases xs) auto
  then have "0 < count_list xs y" by (metis count_list_0_iff not_gr_zero)
  with count_le_max_count [of xs y] have "max_count xs \<noteq> 0" by simp
  with foldr_max_attained [of "count_list xs" xs] show ?thesis by (simp add: max_count_def)
qed

lemma max_count_Nil [simp]: "max_count [] = 0"
  by (simp add: max_count_def)

lemma count_list_snoc: "count_list (xs @ [x]) y = count_list xs y + (if x = y then 1 else 0)"
  by (induction xs) auto

lemma max_count_snoc: "max_count (xs @ [x]) = max (max_count xs) (count_list xs x + 1)"
proof (rule antisym)
  have "xs @ [x] \<noteq> []" by simp
  from max_count_attained [OF this]
  obtain z where z: "z \<in> set (xs @ [x])" "count_list (xs @ [x]) z = max_count (xs @ [x])"
    by blast
  show "max_count (xs @ [x]) \<le> max (max_count xs) (count_list xs x + 1)"
    using z(2) count_le_max_count [of xs z] by (auto simp: count_list_snoc split: if_splits)
next
  have a: "count_list xs x + 1 \<le> max_count (xs @ [x])"
    using count_le_max_count [of "xs @ [x]" x] by (simp add: count_list_snoc)
  have b: "max_count xs \<le> max_count (xs @ [x])"
  proof (cases "xs = []")
    case True then show ?thesis by simp
  next
    case False
    then obtain z where "z \<in> set xs" "count_list xs z = max_count xs"
      using max_count_attained by blast
    then show ?thesis using count_le_max_count [of "xs @ [x]" z] by (simp add: count_list_snoc)
  qed
  from a b show "max (max_count xs) (count_list xs x + 1) \<le> max_count (xs @ [x])" by simp
qed


lemma count_list_append: "count_list (xs @ ys) x = count_list xs x + count_list ys x"
  by (induction xs) auto

lemma count_take_le: "count_list (take j xs) x \<le> count_list xs x"
proof -
  have "count_list xs x = count_list (take j xs) x + count_list (drop j xs) x"
    by (metis append_take_drop_id count_list_append)
  then show ?thesis by simp
qed

lemma running_count_le_max: "count_list (take j xs) x \<le> max_count xs"
  using count_take_le [of j xs x] count_le_max_count [of xs x] by simp

lemma reach_positions_snoc:
  "reach_positions (ks @ [k]) =
     (if count_list ks k + 1 > max_count ks then [length ks]
      else if count_list ks k + 1 = max_count ks then reach_positions ks @ [length ks]
      else reach_positions ks)"
proof -
  let ?n = "count_list ks k + 1"
  let ?P = "\<lambda>i. count_list (take (Suc i) (ks @ [k])) ((ks @ [k]) ! i) = max_count (ks @ [k])"
  have split: "reach_positions (ks @ [k]) = filter ?P [0..<length ks] @ (if ?P (length ks) then [length ks] else [])"
    by (simp add: reach_positions_def)
  have last: "?P (length ks) \<longleftrightarrow> ?n = max_count (ks @ [k])"
    by (simp add: count_list_snoc)
  have inner: "?P i \<longleftrightarrow> count_list (take (Suc i) ks) (ks ! i) = max_count (ks @ [k])"
    if "i < length ks" for i
    using that by (simp add: nth_append)
  have first: "filter ?P [0..<length ks]
      = filter (\<lambda>i. count_list (take (Suc i) ks) (ks ! i) = max_count (ks @ [k])) [0..<length ks]"
    by (rule filter_cong) (simp_all add: nth_append)
  show ?thesis
  proof (cases "?n > max_count ks")
    case True
    then have m: "max_count (ks @ [k]) = ?n" by (simp add: max_count_snoc)
    have "count_list (take (Suc i) ks) (ks ! i) \<noteq> ?n" for i
      using True running_count_le_max [of "Suc i" ks "ks ! i"] by linarith
    then have "filter (\<lambda>i. count_list (take (Suc i) ks) (ks ! i) = ?n) [0..<length ks] = []"
      by (simp add: filter_empty_conv)
    with True split last first m show ?thesis by simp
  next
    case False
    then have m: "max_count (ks @ [k]) = max_count ks" by (simp add: max_count_snoc)
    with False split last first show ?thesis by (auto simp: reach_positions_def)
  qed
qed

lemma reach_positions_bound: "i \<in> set (reach_positions xs) \<Longrightarrow> i < length xs"
  by (simp add: reach_positions_def)

lemma map_nth_snoc_positions:
  "map ((!) (p @ [x])) (reach_positions (map f p)) = map ((!) p) (reach_positions (map f p))"
  by (rule map_cong) (auto simp: nth_append dest: reach_positions_bound)

lemma mode_loop_invariant:
  assumes "\<forall>v\<in>set p. countable_value v"
  shows "(\<forall>k. frequencyMap (foldl mode_step mode_init p) k
              = (if k \<in> set (map to_string p) then Some (count_list (map to_string p) k) else None))
       \<and> maxFrequency (foldl mode_step mode_init p) = max_count (map to_string p)
       \<and> modes (foldl mode_step mode_init p) = map ((!) p) (reach_positions (map to_string p))"
  using assms
proof (induction p rule: rev_induct)
  case Nil
  then show ?case by (simp add: mode_init_def reach_positions_def)
next
  case (snoc x p)
  define st where "st = foldl mode_step mode_init p"
  define ks where "ks = map to_string p"
  define k where "k = to_string x"
  define n where "n = count_list ks k + 1"
  from snoc have IH: "\<forall>k. frequencyMap st k = (if k \<in> set ks then Some (count_list ks k) else None)"
      "maxFrequency st = max_count ks" "modes st = map ((!) p) (reach_positions ks)"
    by (auto simp: st_def ks_def)
  from snoc.prems have ok: "k \<notin> set object_prototype_names"
    by (simp add: countable_value_def k_def)
  have n: "(case frequencyMap st k of Some c \<Rightarrow> c + 1 | None \<Rightarrow> 1) = n"
    using IH(1) by (simp add: count_list_0_iff n_def)
  have step: "mode_step st x =
      (if n > max_count ks
       then st\<lparr>frequencyMap := (frequencyMap st)(k \<mapsto> n), maxFrequency := n, modes := [x]\<rparr>
       else if n = max_count ks
       then st\<lparr>frequencyMap := (frequencyMap st)(k \<mapsto> n), modes := modes st @ [x]\<rparr>
       else st\<lparr>frequencyMap := (frequencyMap st)(k \<mapsto> n)\<rparr>)"
    using ok n IH(2) by (simp add: mode_step_def Let_def k_def [symmetric])
  have fold: "foldl mode_step mode_init (p @ [x]) = mode_step st x"
    by (simp add: st_def)
  have keys: "map to_string (p @ [x]) = ks @ [k]"
    by (simp add: ks_def k_def)
  have f: "frequencyMap (mode_step st x) k' =
      (if k' \<in> set (ks @ [k]) then Some (count_list (ks @ [k]) k') else None)" for k'
    using IH(1) by (auto simp: step count_list_snoc n_def)
  have m: "maxFrequency (mode_step st x) = max_count (ks @ [k])"
    using IH(2) by (auto simp: step max_count_snoc n_def)
  have pos: "map ((!) (p @ [x])) (reach_positions ks) = map ((!) p) (reach_positions ks)"
    unfolding ks_def by (rule map_nth_snoc_positions)
  have len: "length ks = length p" by (simp add: ks_def)
  have r: "modes (mode_step st x) = map ((!) (p @ [x])) (reach_positions (ks @ [k]))"
    using IH(3) by (auto simp: step reach_positions_snoc n_def pos len)
  from f m r show ?case unfolding fold keys by blast
qed


lemma mode_step_skip: "\<not> countable_value x \<Longrightarrow> mode_step st x = st"
  by (simp add: mode_step_def countable_value_def)

lemma foldl_mode_step_skip:
  "foldl mode_step st xs = foldl mode_step st (filter countable_value xs)"
  by (induction xs arbitrary: st) (auto simp: mode_step_skip)

lemma mode_values_general:
  "mode_values xs =
     map ((!) (filter countable_value xs))
         (reach_positions (map to_string (filter countable_value xs)))"
proof -
  have "mode_values xs = modes (foldl mode_step mode_init (filter countable_value xs))"
    using foldl_mode_step_skip [of mode_init xs] by (simp add: mode_values_def)
  with mode_loop_invariant [of "filter countable_value xs"] show ?thesis by simp
qed

lemma count_list_map_inj:
  "inj_on f (insert x (set xs)) \<Longrightarrow> count_list (map f xs) (f x) = count_list xs x"
  by (induction xs) (auto simp: inj_on_def)

lemma max_count_map_inj:
  assumes "inj_on f (set xs)"
  shows "max_count (map f xs) = max_count xs"
proof -
  have "foldr (\<lambda>x m. max (count_list (map f xs) x) m) (map f ys) 0
      = foldr (\<lambda>x m. max (count_list xs x) m) ys 0" if "set ys \<subseteq> set xs" for ys
    using that
  proof (induction ys)
    case Nil
    then show ?case by simp
  next
    case (Cons y ys)
    then have "inj_on f (insert y (set xs))" using assms by (simp add: insert_absorb)
    from count_list_map_inj [OF this] Cons show ?case by simp
  qed
  from this [of xs] show ?thesis by (simp add: max_count_def)
qed

lemma reach_positions_map_inj:
  assumes "inj_on f (set xs)"
  shows "reach_positions (map f xs) = reach_positions xs"
proof -
  have "count_list (take (Suc i) (map f xs)) (map f xs ! i) = count_list (take (Suc i) xs) (xs ! i)"
    if "i < length xs" for i
  proof -
    have "set (take (Suc i) xs) \<subseteq> set xs" by (rule set_take_subset)
    moreover have "xs ! i \<in> set xs" using that by simp
    ultimately have "insert (xs ! i) (set (take (Suc i) xs)) \<subseteq> set xs" by simp
    with assms have "inj_on f (insert (xs ! i) (set (take (Suc i) xs)))"
      by (rule inj_on_subset)
    from count_list_map_inj [OF this] that show ?thesis by (simp add: take_map)
  qed
  then show ?thesis
    unfolding reach_positions_def
    by (auto simp: max_count_map_inj [OF assms] intro!: filter_cong)
qed

lemma last_occurrence:
  "v \<in> set xs \<Longrightarrow> \<exists>i<length xs. xs ! i = v \<and> count_list (take (Suc i) xs) v = count_list xs v"
proof (induction xs rule: rev_induct)
  case Nil
  then show ?case by simp
next
  case (snoc x xs)
  show ?case
  proof (cases "x = v")
    case True
    then show ?thesis by (intro exI [of _ "length xs"]) simp
  next
    case False
    with snoc obtain i where "i < length xs" "xs ! i = v"
        "count_list (take (Suc i) xs) v = count_list xs v" by auto
    with False show ?thesis
      by (intro exI [of _ i]) (simp add: nth_append count_list_snoc)
  qed
qed

lemma running_count_strict:
  assumes "i < j" "j < length xs" "xs ! j = v"
  shows "count_list (take (Suc i) xs) v < count_list (take (Suc j) xs) v"
proof -
  have "take (Suc j) xs = take (Suc i) xs @ drop (Suc i) (take (Suc j) xs)"
    using assms by (metis Suc_leI Suc_le_mono append_take_drop_id less_imp_le_nat min.absorb1 take_take)
  moreover have "v \<in> set (drop (Suc i) (take (Suc j) xs))"
  proof -
    have "drop (Suc i) (take (Suc j) xs) ! (j - Suc i) = xs ! j" using assms by simp
    moreover have "j - Suc i < length (drop (Suc i) (take (Suc j) xs))" using assms by simp
    ultimately show ?thesis using assms(3) by (metis nth_mem)
  qed
  then have "0 < count_list (drop (Suc i) (take (Suc j) xs)) v"
    by (metis count_list_0_iff not_gr_zero)
  ultimately show ?thesis by (metis count_list_append less_add_same_cancel1)
qed

lemma set_reach_values:
  "set (map ((!) xs) (reach_positions xs)) = {v \<in> set xs. count_list xs v = max_count xs}"
proof (intro set_eqI iffI)
  fix v assume "v \<in> set (map ((!) xs) (reach_positions xs))"
  then obtain i where i: "i < length xs" "xs ! i = v"
      "count_list (take (Suc i) xs) v = max_count xs"
    by (auto simp: reach_positions_def)
  with count_take_le [of "Suc i" xs v] count_le_max_count [of xs v]
  show "v \<in> {v \<in> set xs. count_list xs v = max_count xs}" by auto
next
  fix v assume "v \<in> {v \<in> set xs. count_list xs v = max_count xs}"
  then have v: "v \<in> set xs" "count_list xs v = max_count xs" by auto
  from last_occurrence [OF v(1)] obtain i where "i < length xs" "xs ! i = v"
      "count_list (take (Suc i) xs) v = count_list xs v" by blast
  with v(2) show "v \<in> set (map ((!) xs) (reach_positions xs))"
    by (force simp: reach_positions_def)
qed

lemma distinct_reach_values: "distinct (map ((!) xs) (reach_positions xs))"
proof -
  have d: "distinct (reach_positions xs)" by (simp add: reach_positions_def)
  have "inj_on ((!) xs) (set (reach_positions xs))"
  proof (rule inj_onI)
    fix i j assume ij: "i \<in> set (reach_positions xs)" "j \<in> set (reach_positions xs)"
      "xs ! i = xs ! j"
    then have b: "i < length xs" "j < length xs"
      and c: "count_list (take (Suc i) xs) (xs ! i) = max_count xs"
        "count_list (take (Suc j) xs) (xs ! j) = max_count xs"
      by (auto simp: reach_positions_def)
    show "i = j"
    proof (rule ccontr)
      assume "i \<noteq> j"
      then consider "i < j" | "j < i" by linarith
      then show False
      proof cases
        case 1
        from running_count_strict [OF 1 b(2) refl] c ij(3) show False by simp
      next
        case 2
        from running_count_strict [OF 2 b(1) refl] c ij(3) show False by simp
      qed
    qed
  qed
  with d show ?thesis by (simp add: distinct_map)
qed


lemma max_count_eval: "max_count [Num 1, Str ''1''] = 1"
  by (simp add: max_count_def)




section \<open>Properties: sorting\<close>

lemma str_less_irrefl [simp]: "\<not> str_less s s"
  by (induction s) auto

lemma str_less_trans: "str_less a b \<Longrightarrow> str_less b c \<Longrightarrow> str_less a c"
proof (induction a b arbitrary: c rule: str_less.induct)
  case 1
  then show ?case by simp
next
  case (2 y ys)
  then show ?case by (cases c) auto
next
  case (3 x xs)
  then show ?case by simp
next
  case (4 x xs y ys)
  then show ?case by (cases c) auto
qed


lemma str_less_asym: "str_less a b \<Longrightarrow> \<not> str_less b a"
  using str_less_trans [of a b a] by auto


lemma natural_irrefl [simp]: "\<not> spec_natural_less v v"
  by (cases v) auto

lemma natural_asym: "spec_natural_less v w \<Longrightarrow> \<not> spec_natural_less w v"
  by (cases v; cases w) (auto dest: str_less_asym)






lemma row_le_Nil [simp]: "row_le ascending [] r s"
  by (simp add: row_le_def same_keys_def)

lemma row_le_Cons:
  "row_le ascending (c # cs) r s \<longleftrightarrow>
     (if ascending then spec_natural_less (js_prop r c) (js_prop s c)
      else spec_natural_less (js_prop s c) (js_prop r c))
     \<or> (js_prop r c = js_prop s c \<and> row_le ascending cs r s)"
  by (auto simp: row_le_def same_keys_def)



lemma row_le_antisym:
  "row_le asc cols r s \<Longrightarrow> row_le asc cols s r \<Longrightarrow> same_keys cols r s"
proof (induction cols)
  case Nil
  then show ?case by (simp add: same_keys_def)
next
  case (Cons c cs)
  then show ?case
    by (auto simp: row_le_Cons same_keys_def dest: natural_asym split: if_splits)
qed




lemma mset_insert_by: "mset (insert_by cmp x ys) = add_mset x (mset ys)"
  by (induction ys) auto

lemma mset_sort_by: "mset (sort_by cmp xs) = mset xs"
  by (induction xs) (auto simp: sort_by_def mset_insert_by)


lemma set_sort_by: "set (sort_by cmp xs) = set xs"
  by (metis mset_sort_by set_mset_mset)
















section \<open>Properties: grouping\<close>

lemma digit_cases: "d < 10 \<Longrightarrow> d = 0 \<or> d = 1 \<or> d = 2 \<or> d = 3 \<or> d = 4 \<or> d = 5 \<or> d = 6
    \<or> d = 7 \<or> d = 8 \<or> d = (9::nat)"
  by arith

lemma digit_val_digit_char: "d < 10 \<Longrightarrow> digit_val (digit_char d) = d"
  by (drule digit_cases) (auto simp: digit_val_def digit_char_def)

lemma is_digit_digit_char: "d < 10 \<Longrightarrow> is_digit (digit_char d)"
  by (drule digit_cases) (auto simp: is_digit_def digit_char_def)

lemma read_nat_snoc: "read_nat (s @ [c]) = 10 * read_nat s + digit_val c"
  by (simp add: read_nat_def)

lemma read_show_nat: "read_nat (show_nat n) = n"
proof (induction n rule: show_nat.induct)
  case (1 n)
  show ?case
  proof (cases "n < 10")
    case True
    then show ?thesis
      by (simp add: show_nat.simps [of n] read_nat_def digit_val_digit_char)
  next
    case False
    with 1 have "read_nat (show_nat (n div 10)) = n div 10" by simp
    with False show ?thesis
      by (simp add: show_nat.simps [of n] read_nat_snoc digit_val_digit_char)
  qed
qed

lemma show_nat_inj: "show_nat m = show_nat n \<Longrightarrow> m = n"
  by (metis read_show_nat)

lemma show_nat_digits: "list_all is_digit (show_nat n)"
proof (induction n rule: show_nat.induct)
  case (1 n)
  then show ?case
    by (cases "n < 10") (simp_all add: show_nat.simps [of n] is_digit_digit_char)
qed

lemma show_nat_nonempty: "show_nat n \<noteq> []"
  by (cases "n < 10") (simp_all add: show_nat.simps [of n])













lemma hex_cases: "d < 16 \<Longrightarrow> d = 0 \<or> d = 1 \<or> d = 2 \<or> d = 3 \<or> d = 4 \<or> d = 5 \<or> d = 6
    \<or> d = 7 \<or> d = 8 \<or> d = 9 \<or> d = 10 \<or> d = 11 \<or> d = 12 \<or> d = 13 \<or> d = 14 \<or> d = (15::nat)"
  by arith

lemma hex_val_hex_char: "d < 16 \<Longrightarrow> hex_val (hex_char d) = d"
  by (drule hex_cases) (auto simp: hex_char_def hex_val_def)

lemma hex_char_inj: "a < 16 \<Longrightarrow> b < 16 \<Longrightarrow> hex_char a = hex_char b \<Longrightarrow> a = b"
  by (metis hex_val_hex_char)











lemma show_nat_hd: "\<exists>c t. show_nat n = c # t \<and> is_digit c"
  using show_nat_digits [of n] show_nat_nonempty [of n] by (cases "show_nat n") auto

lemma show_int_hd: "\<exists>c t. show_int n = c # t \<and> (c = CHR ''-'' \<or> is_digit c)"
  using show_nat_hd [of "nat n"] by (auto simp: show_int_def)

lemma show_int_inj: "show_int a = show_int b \<Longrightarrow> a = b"
proof -
  assume eq: "show_int a = show_int b"
  have nd: "\<not> is_digit (CHR ''-'')" by (simp add: is_digit_def)
  consider "a < 0" "b < 0" | "a < 0" "\<not> b < 0" | "\<not> a < 0" "b < 0" | "\<not> a < 0" "\<not> b < 0"
    by blast
  then show ?thesis
  proof cases
    case 1
    with eq have "show_nat (nat (- a)) = show_nat (nat (- b))" by (simp add: show_int_def)
    from show_nat_inj [OF this] 1 show ?thesis by simp
  next
    case 2
    with eq show_nat_hd [of "nat b"] nd show ?thesis by (auto simp: show_int_def)
  next
    case 3
    with eq show_nat_hd [of "nat a"] nd show ?thesis by (auto simp: show_int_def)
  next
    case 4
    with eq have "show_nat (nat a) = show_nat (nat b)" by (simp add: show_int_def)
    from show_nat_inj [OF this] 4 show ?thesis by simp
  qed
qed












lemma show_int_small [simp]: "0 \<le> n \<Longrightarrow> n < 10 \<Longrightarrow> show_int n = [digit_char (nat n)]"
  by (simp add: show_int_def)










section \<open>Properties: mode on a column of numbers\<close>

text \<open>
  The numerals of different numbers are different, and none is a name inherited from
  \<open>Object.prototype\<close>. So on a column that holds numbers only, \<open>mode\<close> returns the values
  that occur most often, each once, in the order in which they reached that number of
  occurrences.
\<close>

lemma number_strings:
  assumes "list_all (\<lambda>v. typeof v = ''number'') vals"
  shows "inj_on to_string (set vals)"
    and "\<forall>v\<in>set vals. to_string v \<notin> set object_prototype_names"
proof -
  have num: "\<exists>n. v = Num n" if "v \<in> set vals" for v
    using assms that by (cases v) (auto simp: list_all_iff split: if_splits)
  show "inj_on to_string (set vals)"
  proof (rule inj_onI)
    fix v w assume "v \<in> set vals" "w \<in> set vals" "to_string v = to_string w"
    with num [of v] num [of w] show "v = w" by (auto dest: show_int_inj)
  qed
  show "\<forall>v\<in>set vals. to_string v \<notin> set object_prototype_names"
  proof
    fix v assume "v \<in> set vals"
    with num obtain n where v: "v = Num n" by blast
    from show_int_hd [of n] obtain c t where s: "show_int n = c # t"
      and c: "c = CHR ''-'' \<or> is_digit c" by blast
    from c have "c \<notin> {CHR ''c'', CHR ''_'', CHR ''h'', CHR ''i'', CHR ''p'', CHR ''t'', CHR ''v''}"
      by (auto simp: is_digit_def)
    with s v show "to_string v \<notin> set object_prototype_names"
      by (auto simp: object_prototype_names_def)
  qed
qed

lemma mode_of_numbers:
  assumes col: "getColumn df name = Inr vals"
    and nums: "list_all (\<lambda>v. typeof v = ''number'') vals"
  shows "mode df name = Inr (map ((!) vals) (reach_positions vals))"
    and "set (map ((!) vals) (reach_positions vals)) = {v \<in> set vals. count_list vals v = max_count vals}"
    and "distinct (map ((!) vals) (reach_positions vals))"
proof -
  from number_strings(2) [OF nums] have "filter countable_value vals = vals"
    by (simp add: countable_value_def)
  then have "mode_values vals = map ((!) vals) (reach_positions (map to_string vals))"
    using mode_values_general [of vals] by simp
  then show "mode df name = Inr (map ((!) vals) (reach_positions vals))"
    using col reach_positions_map_inj [OF number_strings(1) [OF nums]] by (simp add: mode_def)
  show "set (map ((!) vals) (reach_positions vals)) = {v \<in> set vals. count_list vals v = max_count vals}"
    using set_reach_values [of vals] by simp
  show "distinct (map ((!) vals) (reach_positions vals))"
    using distinct_reach_values [of vals] by simp
qed

section \<open>Properties: the receiver is left as it was\<close>

text \<open>
  The steps of a computation and their frames: reading, returning and throwing change
  nothing, allocation appends a cell, and an assignment to a cell allocated at or after
  \<open>n\<close> leaves the first \<open>n\<close> cells alone. Sequencing, \<open>map\<close> and loops compose frames.
\<close>

lemma frame_succeed: "P x \<Longrightarrow> frame n P (succeed x)"
  by (simp add: frame_def succeed_def)

lemma frame_fail: "frame n P (fail e)"
  by (simp add: frame_def fail_def)

lemma frame_inspect: "frame n (\<lambda>x. True) (inspect f)"
  by (auto simp: frame_def inspect_def split: sum.splits)

lemma frame_allocate: "frame n (\<lambda>a. n \<le> a) (allocate c)"
  by (simp add: frame_def allocate_def)

lemma frame_assign: "n \<le> a \<Longrightarrow> frame n (\<lambda>u. True) (assign a f)"
  by (simp add: frame_def assign_def)

lemma frame_and_then:
  assumes "frame n Q m" and "\<And>x. Q x \<Longrightarrow> frame n P (f x)"
  shows "frame n P (and_then m f)"
  unfolding frame_def
proof (intro allI impI)
  fix h :: store assume n: "n \<le> length h"
  obtain r h1 where m: "m h = (r, h1)" by (cases "m h")
  with assms(1) n have 1: "n \<le> length h1" "take n h1 = take n h"
    and q: "case r of Inl e \<Rightarrow> True | Inr x \<Rightarrow> Q x"
    by (auto simp: frame_def)
  show "case and_then m f h of (r, h') \<Rightarrow>
           n \<le> length h' \<and> take n h' = take n h \<and> (case r of Inl e \<Rightarrow> True | Inr x \<Rightarrow> P x)"
  proof (cases r)
    case (Inl e)
    with m 1 show ?thesis by (simp add: and_then_def)
  next
    case (Inr x)
    with q have "Q x" by simp
    from assms(2) [OF this] 1(1) have "case f x h1 of (r, h') \<Rightarrow>
           n \<le> length h' \<and> take n h' = take n h1 \<and> (case r of Inl e \<Rightarrow> True | Inr x \<Rightarrow> P x)"
      by (simp add: frame_def)
    with m Inr 1 show ?thesis by (auto simp: and_then_def)
  qed
qed

lemma frame_weaken: "frame n Q m \<Longrightarrow> (\<And>x. Q x \<Longrightarrow> P x) \<Longrightarrow> frame n P m"
  by (fastforce simp: frame_def split: sum.splits prod.splits)

lemma frame_map_effect:
  "(\<And>x. x \<in> set xs \<Longrightarrow> frame n P (f x)) \<Longrightarrow> frame n (list_all P) (map_effect f xs)"
proof (induction xs)
  case Nil
  then show ?case by (simp add: frame_succeed)
next
  case (Cons x xs)
  show ?case
    unfolding map_effect.simps
  proof (rule frame_and_then [where Q = P])
    show "frame n P (f x)" using Cons.prems by simp
  next
    fix y assume y: "P y"
    show "frame n (list_all P) (and_then (map_effect f xs) (\<lambda>ys. succeed (y # ys)))"
    proof (rule frame_and_then [where Q = "list_all P"])
      show "frame n (list_all P) (map_effect f xs)" using Cons by simp
    next
      fix ys assume "list_all P ys"
      with y show "frame n (list_all P) (succeed (y # ys))" by (simp add: frame_succeed)
    qed
  qed
qed

lemma frame_fold_effect:
  "I s \<Longrightarrow> (\<And>x s. I s \<Longrightarrow> frame n I (f x s)) \<Longrightarrow> frame n I (fold_effect f xs s)"
proof (induction xs arbitrary: s)
  case Nil
  then show ?case by (simp add: frame_succeed)
next
  case (Cons x xs)
  show ?case
    unfolding fold_effect.simps
    by (rule frame_and_then [where Q = I]) (use Cons in auto)
qed

text \<open>The constructor and the helper methods allocate what they assign to.\<close>

lemma frame_store_prop: "n \<le> a \<Longrightarrow> frame n (\<lambda>u. True) (and_then (inspect g) (\<lambda>v. assign a (f v)))"
  by (rule frame_and_then [OF frame_inspect]) (rule frame_assign)

lemma fresh_ref_VRef [simp]: "fresh_ref n (VRef a) \<longleftrightarrow> n \<le> a"
  by (simp add: fresh_ref_def)

lemma frame_detect_types: "frame n (fresh_ref n) (detect_types this)"
  unfolding detect_types_def
proof (rule frame_and_then [OF frame_allocate])
  fix dts assume d: "n \<le> dts"
  show "frame n (fresh_ref n)
     (and_then (inspect (\<lambda>h. column_names h this)) (\<lambda>cols.
      and_then (fold_effect (\<lambda>columnName u.
                 and_then (inspect (\<lambda>h. detect_type h this columnName)) (\<lambda>t.
                 assign dts (put_prop columnName (VStr t)))) cols ()) (\<lambda>u.
      succeed (VRef dts))))"
  proof (rule frame_and_then [OF frame_inspect])
    fix cols :: "string list"
    show "frame n (fresh_ref n)
      (and_then (fold_effect (\<lambda>columnName u.
                 and_then (inspect (\<lambda>h. detect_type h this columnName)) (\<lambda>t.
                 assign dts (put_prop columnName (VStr t)))) cols ()) (\<lambda>u.
       succeed (VRef dts)))"
    proof (rule frame_and_then [where Q = "\<lambda>u. True"])
      show "frame n (\<lambda>u. True) (fold_effect (\<lambda>columnName u.
                 and_then (inspect (\<lambda>h. detect_type h this columnName)) (\<lambda>t.
                 assign dts (put_prop columnName (VStr t)))) cols ())"
        by (rule frame_fold_effect) (simp_all add: frame_store_prop d)
    next
      show "frame n (fresh_ref n) (succeed (VRef dts))" by (simp add: frame_succeed d)
    qed
  qed
qed

lemma frame_finish_instance: "n \<le> this \<Longrightarrow> frame n (fresh_ref n) (finish_instance this)"
  unfolding finish_instance_def
  by (rule frame_and_then [OF frame_detect_types], rule frame_and_then [OF frame_assign])
     (simp_all add: frame_succeed)

lemma frame_fill_row: "frame n (fresh_ref n) (fill_row names row)"
  unfolding fill_row_def
proof (rule frame_and_then [OF frame_allocate])
  fix obj assume o: "n \<le> obj"
  show "frame n (fresh_ref n)
     (and_then (fold_effect (\<lambda>(column, index) u.
                 and_then (inspect (\<lambda>h. get_index h row index)) (\<lambda>v.
                 assign obj (put_prop column v))) (zip names [0..<length names]) ()) (\<lambda>u.
      succeed (VRef obj)))"
  proof (rule frame_and_then [where Q = "\<lambda>u. True"])
    show "frame n (\<lambda>u. True) (fold_effect (\<lambda>(column, index) u.
                 and_then (inspect (\<lambda>h. get_index h row index)) (\<lambda>v.
                 assign obj (put_prop column v))) (zip names [0..<length names]) ())"
      by (rule frame_fold_effect) (auto simp: frame_store_prop o)
  next
    show "frame n (fresh_ref n) (succeed (VRef obj))" by (simp add: frame_succeed o)
  qed
qed

lemma frame_copy_row: "frame n (fresh_ref n) (copy_row cols row)"
  unfolding copy_row_def
proof (rule frame_and_then [OF frame_allocate])
  fix newRow assume o: "n \<le> newRow"
  show "frame n (fresh_ref n)
     (and_then (fold_effect (\<lambda>column u.
                 and_then (inspect (\<lambda>h. get_prop h row column)) (\<lambda>v.
                 assign newRow (put_prop column v))) cols ()) (\<lambda>u.
      succeed (VRef newRow)))"
  proof (rule frame_and_then [where Q = "\<lambda>u. True"])
    show "frame n (\<lambda>u. True) (fold_effect (\<lambda>column u.
                 and_then (inspect (\<lambda>h. get_prop h row column)) (\<lambda>v.
                 assign newRow (put_prop column v))) cols ())"
      by (rule frame_fold_effect) (simp_all add: frame_store_prop o)
  next
    show "frame n (fresh_ref n) (succeed (VRef newRow))" by (simp add: frame_succeed o)
  qed
qed

lemma frame_any: "frame n P m \<Longrightarrow> frame n (\<lambda>x. True) m"
  by (erule frame_weaken) simp

lemma frame_choose_columns:
  "frame n (\<lambda>x. True)
     (if c then succeed v else and_then (allocate cell) (\<lambda>a. succeed (VRef a)))"
  by (auto intro!: frame_succeed frame_and_then [OF frame_allocate])

lemma frame_keys_columns:
  "frame n (\<lambda>x. True)
     (if c then and_then (inspect g) (\<lambda>ks. and_then (allocate (NamesCell ks)) (\<lambda>a. succeed (VRef a)))
      else succeed v)"
  by (auto intro!: frame_succeed frame_and_then [OF frame_inspect] frame_and_then [OF frame_allocate])

lemma frame_construct: "frame n (fresh_ref n) (construct d columnsArg)"
  unfolding construct_def
proof (rule frame_and_then [OF frame_allocate])
  fix this assume t: "n \<le> this"
  note fin = frame_finish_instance [OF t]
  have first: "frame n (fresh_ref n)
       (and_then (inspect (\<lambda>h. elements h d0)) (\<lambda>first.
         and_then (inspect (\<lambda>h. Inr (case names_of h columnsArg of
                                         Inr cs \<Rightarrow> length cs = length first
                                       | Inl e \<Rightarrow> False))) (\<lambda>use_argument.
         and_then (if use_argument then succeed columnsArg
                   else and_then (allocate (NamesCell (auto_columns (length first))))
                          (\<lambda>a. succeed (VRef a))) (\<lambda>cols.
         and_then (assign this (set_columns cols)) (\<lambda>u.
         and_then (inspect (\<lambda>h. elements h d)) (\<lambda>rows.
         and_then (inspect (\<lambda>h. names_of h cols)) (\<lambda>names.
         and_then (map_effect (fill_row names) rows) (\<lambda>objs.
         and_then (allocate (ArrayCell objs)) (\<lambda>newData.
         and_then (assign this (set_data (VRef newData))) (\<lambda>u.
         finish_instance this))))))))))" for d0
    apply (rule frame_and_then [OF frame_inspect])
    apply (rule frame_and_then [OF frame_inspect])
    apply (rule frame_and_then [OF frame_choose_columns])
    apply (rule frame_and_then [OF frame_assign [OF t]])
    apply (rule frame_and_then [OF frame_inspect])
    apply (rule frame_and_then [OF frame_inspect])
    apply (rule frame_and_then [OF frame_any [OF frame_map_effect [OF frame_fill_row]]])
    apply (rule frame_and_then [OF frame_allocate])
    apply (rule frame_and_then [OF frame_assign [OF t]])
    apply (rule fin)
    done
  have second: "frame n (fresh_ref n)
       (and_then m (\<lambda>cols.
         and_then (assign this (set_columns cols)) (\<lambda>u.
         and_then (assign this (set_data d)) (\<lambda>u.
         finish_instance this))))" if "frame n (\<lambda>x. True) m" for m
    apply (rule frame_and_then [OF that])
    apply (rule frame_and_then [OF frame_assign [OF t]])
    apply (rule frame_and_then [OF frame_assign [OF t]])
    apply (rule fin)
    done
  have keys: "frame n (\<lambda>x. True)
      (and_then (inspect g) (\<lambda>ks. and_then (allocate (NamesCell ks)) (\<lambda>a. succeed (VRef a))))"
    for g :: "store \<Rightarrow> error + string list"
    by (auto intro!: frame_succeed frame_and_then [OF frame_inspect] frame_and_then [OF frame_allocate])
  show "frame n (fresh_ref n)
     (and_then (inspect (\<lambda>h. get_index h d 0)) (\<lambda>d0.
      and_then (inspect (\<lambda>h. Inr (is_array_val h d0, is_array_val h d))) (\<lambda>(first_is_array, data_is_array).
       if first_is_array then
         and_then (inspect (\<lambda>h. elements h d0)) (\<lambda>first.
         and_then (inspect (\<lambda>h. Inr (case names_of h columnsArg of
                                         Inr cs \<Rightarrow> length cs = length first
                                       | Inl e \<Rightarrow> False))) (\<lambda>use_argument.
         and_then (if use_argument then succeed columnsArg
                   else and_then (allocate (NamesCell (auto_columns (length first))))
                          (\<lambda>a. succeed (VRef a))) (\<lambda>cols.
         and_then (assign this (set_columns cols)) (\<lambda>u.
         and_then (inspect (\<lambda>h. elements h d)) (\<lambda>rows.
         and_then (inspect (\<lambda>h. names_of h cols)) (\<lambda>names.
         and_then (map_effect (fill_row names) rows) (\<lambda>objs.
         and_then (allocate (ArrayCell objs)) (\<lambda>newData.
         and_then (assign this (set_data (VRef newData))) (\<lambda>u.
         finish_instance this)))))))))
       else if data_is_array then
         and_then (if is_truthy d0
                   then and_then (inspect (\<lambda>h. Inr (keys_of h d0))) (\<lambda>ks.
                        and_then (allocate (NamesCell ks)) (\<lambda>a. succeed (VRef a)))
                   else succeed columnsArg) (\<lambda>cols.
         and_then (assign this (set_columns cols)) (\<lambda>u.
         and_then (assign this (set_data d)) (\<lambda>u.
         finish_instance this)))
       else fail InvalidInputFormat)))"
    apply (rule frame_and_then [OF frame_inspect])
    apply (rule frame_and_then [OF frame_inspect])
    apply (auto simp: first frame_fail intro!: second keys frame_succeed)
    done
qed

text \<open>The four derivation methods assign only to the arrays they allocated.\<close>

lemma frame_select: "frame n (fresh_ref n) (select_st this arg)"
  unfolding select_st_def
  apply (rule frame_and_then [OF frame_inspect])
  apply (rule frame_and_then [OF frame_allocate])
  apply (rule frame_and_then [OF frame_inspect])
  apply (rule frame_and_then [OF frame_inspect])
  apply (rule frame_and_then [OF frame_any [OF frame_map_effect [OF frame_copy_row]]])
  apply (rule frame_and_then [OF frame_allocate])
  apply (rule frame_construct)
  done

lemma frame_filter: "frame n (fresh_ref n) (filter_st this condition)"
  unfolding filter_st_def
  apply (rule frame_and_then [OF frame_inspect])
  apply (rule frame_and_then [OF frame_inspect])
  apply (rule frame_and_then [OF frame_allocate])
  apply (rule frame_and_then [OF frame_inspect])
  apply (rule frame_construct)
  done

lemma frame_sortBy: "frame n (fresh_ref n) (sortBy_st lt this cols arg)"
  unfolding sortBy_st_def
  apply (rule frame_and_then [OF frame_inspect])
  apply (rule frame_and_then [OF frame_allocate])
  apply (rule frame_and_then [OF frame_inspect])
  apply (rule frame_and_then [OF frame_assign])
   apply assumption
  apply (rule frame_and_then [OF frame_inspect])
  apply (rule frame_construct)
  done

lemma fresh_buckets_lookup: "fresh_buckets n groups \<Longrightarrow> map_of groups key = Some b \<Longrightarrow> n \<le> b"
  by (auto simp: fresh_buckets_def list_all_iff dest: map_of_SomeD)

lemma frame_group_step:
  assumes "fresh_buckets n groups"
  shows "frame n (fresh_buckets n) (group_step stringify cols row groups)"
  unfolding group_step_def
proof (rule frame_and_then [OF frame_inspect])
  fix key :: string
  show "frame n (fresh_buckets n)
     (case map_of groups key of
         None \<Rightarrow>
           and_then (allocate (ArrayCell [])) (\<lambda>bucket.
           and_then (assign bucket (push row)) (\<lambda>u.
           succeed (groups @ [(key, bucket)])))
       | Some bucket \<Rightarrow>
           and_then (assign bucket (push row)) (\<lambda>u. succeed groups))"
  proof (cases "map_of groups key")
    case None
    have "frame n (fresh_buckets n) (and_then (allocate (ArrayCell [])) (\<lambda>bucket.
           and_then (assign bucket (push row)) (\<lambda>u.
           succeed (groups @ [(key, bucket)]))))"
      apply (rule frame_and_then [OF frame_allocate])
      apply (rule frame_and_then [OF frame_assign])
       apply assumption
      apply (rule frame_succeed)
      apply (use assms in \<open>simp add: fresh_buckets_def\<close>)
      done
    with None show ?thesis by simp
  next
    case (Some bucket)
    from fresh_buckets_lookup [OF assms Some] have b: "n \<le> bucket" .
    have "frame n (fresh_buckets n) (and_then (assign bucket (push row)) (\<lambda>u. succeed groups))"
      by (rule frame_and_then [OF frame_assign [OF b]]) (rule frame_succeed, rule assms)
    with Some show ?thesis by simp
  qed
qed

lemma frame_groupBy: "frame n (fresh_ref n) (groupBy_st stringify this cols)"
  unfolding groupBy_st_def
  apply (rule frame_and_then [OF frame_inspect])
  apply (rule frame_and_then [where Q = "fresh_buckets n"])
   apply (rule frame_fold_effect)
    apply (simp add: fresh_buckets_def)
   apply (erule frame_group_step)
  apply (rule frame_and_then [OF frame_allocate])
  apply (rule frame_and_then [OF frame_inspect])
  apply (rule frame_construct)
  done

text \<open>From the frame of a computation to the cells of the receiver.\<close>

lemma frame_at_store:
  assumes "frame (length h) (fresh_ref (length h)) m"
  shows "(\<forall>a<length h. snd (m h) ! a = h ! a) \<and> length h \<le> length (snd (m h))
     \<and> (\<forall>r. fst (m h) = Inr r \<longrightarrow> (\<exists>a. r = VRef a \<and> length h \<le> a))"
proof -
  obtain r h' where m: "m h = (r, h')" by (cases "m h")
  with assms have l: "length h \<le> length h'" and t: "take (length h) h' = h"
    and p: "case r of Inl e \<Rightarrow> True | Inr x \<Rightarrow> fresh_ref (length h) x"
    by (auto simp: frame_def)
  have "h' ! a = h ! a" if "a < length h" for a
    using that t by (metis nth_take)
  moreover have "\<exists>a. x = VRef a \<and> length h \<le> a" if "r = Inr x" for x
    using p that by (cases x) (auto simp: fresh_ref_def)
  ultimately show ?thesis using l m by simp
qed

lemma cell_of_preserved:
  assumes "\<forall>a<length h. h' ! a = h ! a" "length h \<le> length h'" "valid_ref h v"
  shows "cell_of h' v = cell_of h v"
  using assms by (cases v) (auto simp: cell_of_def valid_ref_def)

lemma table_view_preserved:
  assumes p: "\<forall>a<length h. h' ! a = h ! a" and l: "length h \<le> length h'"
    and v: "list_all (valid_ref h) (receiver_cells h this)"
  shows "table_view h' this = table_view h this"
proof -
  note keep = cell_of_preserved [OF p l]
  have self: "cell_of h' this = cell_of h this"
    using v by (intro keep) (auto simp: receiver_cells_def split: option.splits cell.splits)
  have cells: "receiver_cells h' this = receiver_cells h this"
  proof (cases "cell_of h this")
    case None
    with self show ?thesis by (simp add: receiver_cells_def)
  next
    case (Some c)
    show ?thesis
    proof (cases c)
      case (FrameCell cs d t)
      with Some v have "valid_ref h d" by (simp add: receiver_cells_def)
      then have "cell_of h' d = cell_of h d" by (rule keep)
      then have "elements h' d = elements h d" by (simp add: elements_def)
      with Some FrameCell self show ?thesis by (simp add: receiver_cells_def)
    qed (use Some self in \<open>simp_all add: receiver_cells_def\<close>)
  qed
  have "map (\<lambda>v. (v, cell_of h' v)) (receiver_cells h this)
      = map (\<lambda>v. (v, cell_of h v)) (receiver_cells h this)"
    by (rule map_cong) (use v keep in \<open>auto simp: list_all_iff\<close>)
  with cells show ?thesis by (simp add: table_view_def)
qed

lemma frame_leaves_store:
  assumes "frame (length h) (fresh_ref (length h)) m"
  shows "leaves_store h this m"
proof -
  from frame_at_store [OF assms] have p: "\<forall>a<length h. snd (m h) ! a = h ! a"
    and l: "length h \<le> length (snd (m h))"
    and r: "\<forall>r. fst (m h) = Inr r \<longrightarrow> (\<exists>a. r = VRef a \<and> length h \<le> a)" by simp_all
  from r have "case fst (m h) of Inl e \<Rightarrow> True | Inr r \<Rightarrow> fresh_ref (length h) r"
    by (auto split: sum.splits)
  with p l table_view_preserved [OF p l] show ?thesis by (simp add: leaves_store_def)
qed

text \<open>
  That the methods return: the steps of a computation that does not throw, and how they
  compose.
\<close>

lemma returns_succeed: "(\<And>h. P h \<Longrightarrow> Q x h) \<Longrightarrow> returns P (succeed x) Q"
  by (simp add: returns_def succeed_def)

lemma returns_inspect:
  assumes "\<And>h. P h \<Longrightarrow> \<exists>x. f h = Inr x \<and> Q x h"
  shows "returns P (inspect f) Q"
  unfolding returns_def inspect_def
proof (intro allI impI)
  fix h assume "P h"
  from assms [OF this] obtain x where "f h = Inr x" "Q x h" by blast
  then show "case (f h, h) of (Inr x, h') \<Rightarrow> Q x h' | (Inl e, h') \<Rightarrow> False" by simp
qed

lemma returns_allocate: "(\<And>h. P h \<Longrightarrow> Q (length h) (h @ [c])) \<Longrightarrow> returns P (allocate c) Q"
  by (simp add: returns_def allocate_def)

lemma returns_assign: "(\<And>h. P h \<Longrightarrow> Q () (h[a := f (h ! a)])) \<Longrightarrow> returns P (assign a f) Q"
  by (simp add: returns_def assign_def)

lemma returns_and_then:
  assumes "returns P m R" and "\<And>x. returns (R x) (f x) Q"
  shows "returns P (and_then m f) Q"
  unfolding returns_def
proof (intro allI impI)
  fix h assume "P h"
  with assms(1) have c: "case m h of (Inr x, h') \<Rightarrow> R x h' | (Inl e, h') \<Rightarrow> False"
    by (simp add: returns_def)
  obtain r0 h1 where m0: "m h = (r0, h1)" by (cases "m h")
  with c obtain x where m: "m h = (Inr x, h1)" and r: "R x h1"
    by (cases r0) simp_all
  from assms(2) [of x] r have "case f x h1 of (Inr y, h') \<Rightarrow> Q y h' | (Inl e, h') \<Rightarrow> False"
    by (simp add: returns_def)
  with m show "case and_then m f h of (Inr y, h') \<Rightarrow> Q y h' | (Inl e, h') \<Rightarrow> False"
    by (simp add: and_then_def)
qed

lemma returns_weaken:
  assumes "returns P m Q" and "\<And>h. P' h \<Longrightarrow> P h" and "\<And>x h. Q x h \<Longrightarrow> Q' x h"
  shows "returns P' m Q'"
  unfolding returns_def
proof (intro allI impI)
  fix h assume "P' h"
  then have "P h" by (rule assms(2))
  with assms(1) have c: "case m h of (Inr x, h') \<Rightarrow> Q x h' | (Inl e, h') \<Rightarrow> False"
    by (simp add: returns_def)
  obtain r0 h1 where m0: "m h = (r0, h1)" by (cases "m h")
  with c obtain x where "m h = (Inr x, h1)" and "Q x h1"
    by (cases r0) simp_all
  then show "case m h of (Inr x, h') \<Rightarrow> Q' x h' | (Inl e, h') \<Rightarrow> False"
    using assms(3) by simp
qed

lemma returns_const: "(C \<Longrightarrow> returns P m Q) \<Longrightarrow> returns (\<lambda>h. P h \<and> C) m (\<lambda>x h. Q x h \<and> C)"
  by (cases C) (simp_all add: returns_def)

lemma returns_map_effect:
  assumes "\<And>x. x \<in> set xs \<Longrightarrow> returns I (f x) (\<lambda>y h. I h \<and> R y)"
  shows "returns I (map_effect f xs) (\<lambda>ys h. I h \<and> list_all R ys)"
  using assms
proof (induction xs)
  case Nil
  show ?case by (simp add: returns_succeed)
next
  case (Cons x xs)
  show ?case
    unfolding map_effect.simps
  proof (rule returns_and_then [where R = "\<lambda>y h. I h \<and> R y"])
    show "returns I (f x) (\<lambda>y h. I h \<and> R y)" using Cons.prems by simp
  next
    fix y
    show "returns (\<lambda>h. I h \<and> R y) (and_then (map_effect f xs) (\<lambda>ys. succeed (y # ys)))
            (\<lambda>ys h. I h \<and> list_all R ys)"
    proof (rule returns_and_then [where R = "\<lambda>ys h. I h \<and> R y \<and> list_all R ys"])
      have "returns I (map_effect f xs) (\<lambda>ys h. I h \<and> list_all R ys)"
        using Cons by simp
      then have "returns (\<lambda>h. I h \<and> R y) (map_effect f xs) (\<lambda>ys h. (I h \<and> list_all R ys) \<and> R y)"
        by (rule returns_const)
      then show "returns (\<lambda>h. I h \<and> R y) (map_effect f xs) (\<lambda>ys h. I h \<and> R y \<and> list_all R ys)"
        by (rule returns_weaken) simp_all
    next
      fix ys
      show "returns (\<lambda>h. I h \<and> R y \<and> list_all R ys) (succeed (y # ys)) (\<lambda>ys h. I h \<and> list_all R ys)"
        by (rule returns_succeed) simp
    qed
  qed
qed

lemma returns_fold_effect:
  assumes "\<And>x s. x \<in> set xs \<Longrightarrow> returns I (f x s) (\<lambda>s' h. I h)"
  shows "returns I (fold_effect f xs s) (\<lambda>s' h. I h)"
  using assms
proof (induction xs arbitrary: s)
  case Nil
  show ?case by (simp add: returns_succeed)
next
  case (Cons x xs)
  show ?case
    unfolding fold_effect.simps
    by (rule returns_and_then [where R = "\<lambda>s' h. I h"]) (use Cons in auto)
qed

lemma returns_assume: "(C \<Longrightarrow> returns P m Q) \<Longrightarrow> returns (\<lambda>h. P h \<and> C) m Q"
  by (cases C) (simp_all add: returns_def)

text \<open>
  What is read from a cell is read from it after an allocation, and after an assignment
  that keeps the kind of every cell: \<open>obj[k] = v\<close> changes objects only, \<open>push\<close> arrays
  only, an assignment to a field instances only.
\<close>

lemma cell_of_append: "cell_of h v = Some c \<Longrightarrow> cell_of (h @ ext) v = Some c"
  by (auto simp: cell_of_def nth_append split: val.splits if_splits)

lemma cell_of_fresh: "cell_of (h @ [c]) (VRef (length h)) = Some c"
  by (simp add: cell_of_def)

lemma cell_of_update:
  "cell_of (h[a := c]) v = (if v = VRef a \<and> a < length h then Some c else cell_of h v)"
  by (auto simp: cell_of_def split: val.splits)

lemma names_of_append: "names_of h v = Inr ns \<Longrightarrow> names_of (h @ ext) v = Inr ns"
  by (auto simp: names_of_def cell_of_append split: option.splits cell.splits)

lemma holds_names_append: "holds_names h v \<Longrightarrow> holds_names (h @ ext) v"
  by (auto simp: holds_names_def names_of_append split: sum.splits)

lemma holds_names_fresh: "holds_names (h @ [NamesCell ns]) (VRef (length h))"
  by (simp add: holds_names_def names_of_def cell_of_fresh)

lemma holds_rows_append: "holds_rows h v \<Longrightarrow> holds_rows (h @ ext) v"
  by (auto simp: holds_rows_def cell_of_append split: option.splits cell.splits)

lemma holds_rows_fresh: "list_all not_nullish rows \<Longrightarrow> holds_rows (h @ [ArrayCell rows]) (VRef (length h))"
  by (simp add: holds_rows_def cell_of_fresh)

lemma field_columns_append: "field_columns h v = Inr c \<Longrightarrow> field_columns (h @ ext) v = Inr c"
  by (auto simp: field_columns_def cell_of_append split: option.splits cell.splits)

lemma is_table_append: "is_table h this \<Longrightarrow> is_table (h @ ext) this"
  by (auto simp: is_table_def cell_of_append holds_names_append holds_rows_append
           split: option.splits cell.splits)

lemma names_of_assign:
  assumes keep: "\<And>ns. f (NamesCell ns) = NamesCell ns"
    and only: "\<And>c ns. f c = NamesCell ns \<Longrightarrow> c = NamesCell ns"
  shows "names_of (h[a := f (h ! a)]) v = names_of h v"
proof (cases "v = VRef a \<and> a < length h")
  case True
  then have "cell_of h v = Some (h ! a)" by (simp add: cell_of_def)
  with True show ?thesis
    using keep only [of "h ! a"]
    by (auto simp: names_of_def cell_of_update split: cell.splits)
next
  case False
  then show ?thesis by (auto simp: names_of_def cell_of_update)
qed

lemma holds_rows_assign:
  assumes keep: "\<And>xs. f (ArrayCell xs) = ArrayCell xs"
    and only: "\<And>c xs. f c = ArrayCell xs \<Longrightarrow> c = ArrayCell xs"
  shows "holds_rows (h[a := f (h ! a)]) v = holds_rows h v"
proof (cases "v = VRef a \<and> a < length h")
  case True
  then have "cell_of h v = Some (h ! a)" by (simp add: cell_of_def)
  with True show ?thesis
    using keep only [of "h ! a"]
    by (auto simp: holds_rows_def cell_of_update split: cell.splits)
next
  case False
  then show ?thesis by (auto simp: holds_rows_def cell_of_update)
qed

lemma field_columns_assign:
  assumes keep: "\<And>cs d t. f (FrameCell cs d t) = FrameCell cs d t"
    and only: "\<And>c cs d t. f c = FrameCell cs d t \<Longrightarrow> c = FrameCell cs d t"
  shows "field_columns (h[a := f (h ! a)]) v = field_columns h v"
proof (cases "v = VRef a \<and> a < length h")
  case True
  then have "cell_of h v = Some (h ! a)" by (simp add: cell_of_def)
  with True show ?thesis
    using keep only [of "h ! a"]
    by (auto simp: field_columns_def cell_of_update split: cell.splits)
next
  case False
  then show ?thesis by (auto simp: field_columns_def cell_of_update)
qed

lemma put_prop_kinds:
  "put_prop k x (NamesCell ns) = NamesCell ns"
  "put_prop k x c = NamesCell ns \<Longrightarrow> c = NamesCell ns"
  "put_prop k x (ArrayCell xs) = ArrayCell xs"
  "put_prop k x c = ArrayCell xs \<Longrightarrow> c = ArrayCell xs"
  "put_prop k x (FrameCell cs d t) = FrameCell cs d t"
  "put_prop k x c = FrameCell cs d t \<Longrightarrow> c = FrameCell cs d t"
  by (cases c; simp)+

lemma push_kinds:
  "push x (NamesCell ns) = NamesCell ns"
  "push x c = NamesCell ns \<Longrightarrow> c = NamesCell ns"
  "push x (FrameCell cs d t) = FrameCell cs d t"
  "push x c = FrameCell cs d t \<Longrightarrow> c = FrameCell cs d t"
  by (cases c; simp)+

lemma set_field_kinds:
  "set_columns x (NamesCell ns) = NamesCell ns"
  "set_columns x c = NamesCell ns \<Longrightarrow> c = NamesCell ns"
  "set_columns x (ArrayCell xs) = ArrayCell xs"
  "set_columns x c = ArrayCell xs \<Longrightarrow> c = ArrayCell xs"
  "set_data x (NamesCell ns) = NamesCell ns"
  "set_data x c = NamesCell ns \<Longrightarrow> c = NamesCell ns"
  "set_data x (ArrayCell xs) = ArrayCell xs"
  "set_data x c = ArrayCell xs \<Longrightarrow> c = ArrayCell xs"
  "set_dtypes x (NamesCell ns) = NamesCell ns"
  "set_dtypes x c = NamesCell ns \<Longrightarrow> c = NamesCell ns"
  "set_dtypes x (ArrayCell xs) = ArrayCell xs"
  "set_dtypes x c = ArrayCell xs \<Longrightarrow> c = ArrayCell xs"
  by (cases c; simp)+

lemma holds_names_assign:
  assumes "\<And>ns. f (NamesCell ns) = NamesCell ns"
    and "\<And>c ns. f c = NamesCell ns \<Longrightarrow> c = NamesCell ns"
  shows "holds_names (h[a := f (h ! a)]) v = holds_names h v"
  using names_of_assign [of f h a v, OF assms] by (simp add: holds_names_def)

lemmas put_prop_reads [simp] =
  holds_names_assign [of "put_prop k x" for k x, OF put_prop_kinds(1,2)]
  holds_rows_assign [of "put_prop k x" for k x, OF put_prop_kinds(3,4)]
  field_columns_assign [of "put_prop k x" for k x, OF put_prop_kinds(5,6)]

lemmas push_reads [simp] =
  holds_names_assign [of "push x" for x, OF push_kinds(1,2)]
  field_columns_assign [of "push x" for x, OF push_kinds(3,4)]

lemmas set_field_reads [simp] =
  holds_names_assign [of "set_columns x" for x, OF set_field_kinds(1,2)]
  holds_rows_assign [of "set_columns x" for x, OF set_field_kinds(3,4)]
  holds_names_assign [of "set_data x" for x, OF set_field_kinds(5,6)]
  holds_rows_assign [of "set_data x" for x, OF set_field_kinds(7,8)]
  holds_names_assign [of "set_dtypes x" for x, OF set_field_kinds(9,10)]
  holds_rows_assign [of "set_dtypes x" for x, OF set_field_kinds(11,12)]

lemma field_data_assign:
  assumes keep: "\<And>cs d t. f (FrameCell cs d t) = FrameCell cs d t"
    and only: "\<And>c cs d t. f c = FrameCell cs d t \<Longrightarrow> c = FrameCell cs d t"
  shows "field_data (h[a := f (h ! a)]) v = field_data h v"
proof (cases "v = VRef a \<and> a < length h")
  case True
  then have "cell_of h v = Some (h ! a)" by (simp add: cell_of_def)
  with True show ?thesis
    using keep only [of "h ! a"]
    by (auto simp: field_data_def cell_of_update split: cell.splits)
next
  case False
  then show ?thesis by (auto simp: field_data_def cell_of_update)
qed

lemmas put_prop_field_data [simp] =
  field_data_assign [of "put_prop k x" for k x, OF put_prop_kinds(5,6)]

lemma fields_set_dtypes [simp]:
  "field_columns (h[a := set_dtypes x (h ! a)]) v = field_columns h v"
  "field_data (h[a := set_dtypes x (h ! a)]) v = field_data h v"
proof -
  have "field_columns (h[a := set_dtypes x (h ! a)]) v = field_columns h v
      \<and> field_data (h[a := set_dtypes x (h ! a)]) v = field_data h v"
  proof (cases "v = VRef a \<and> a < length h")
    case True
    then have "cell_of h v = Some (h ! a)" by (simp add: cell_of_def)
    with True show ?thesis
      by (cases "h ! a") (simp_all add: field_columns_def field_data_def cell_of_update)
  next
    case False
    then show ?thesis by (auto simp: field_columns_def field_data_def cell_of_update)
  qed
  then show "field_columns (h[a := set_dtypes x (h ! a)]) v = field_columns h v"
    "field_data (h[a := set_dtypes x (h ! a)]) v = field_data h v" by simp_all
qed

lemma is_table_alt:
  "is_table h this =
     (\<exists>c d. field_columns h this = Inr c \<and> field_data h this = Inr d
            \<and> holds_names h c \<and> holds_rows h d)"
  by (auto simp: is_table_def field_columns_def field_data_def split: option.splits cell.splits)

lemma is_table_put_prop [simp]: "is_table (h[a := put_prop k x (h ! a)]) this = is_table h this"
  by (simp add: is_table_alt)

lemma is_table_set_dtypes [simp]: "is_table (h[a := set_dtypes x (h ! a)]) this = is_table h this"
  by (simp add: is_table_alt)

lemma field_columns_set_columns:
  "field_columns h (VRef this) = Inr c \<Longrightarrow>
   field_columns (h[this := set_columns cols (h ! this)]) (VRef this) = Inr cols"
  by (auto simp: field_columns_def cell_of_update cell_of_def split: if_splits cell.splits)

lemma field_columns_fresh:
  "field_columns (h @ [FrameCell c d t]) (VRef (length h)) = Inr c"
  by (simp add: field_columns_def cell_of_fresh)

lemma is_table_set_data:
  assumes "field_columns h (VRef this) = Inr cols" "holds_names h cols" "holds_rows h d"
  shows "is_table (h[this := set_data d (h ! this)]) (VRef this)"
proof -
  from assms(1) obtain d0 t where c: "h ! this = FrameCell cols d0 t" and l: "this < length h"
    by (auto simp: field_columns_def cell_of_def split: if_splits cell.splits)
  have "holds_names (h[this := set_data d (h ! this)]) cols"
    "holds_rows (h[this := set_data d (h ! this)]) d"
    using assms by simp_all
  moreover have "field_columns (h[this := set_data d (h ! this)]) (VRef this) = Inr cols"
    "field_data (h[this := set_data d (h ! this)]) (VRef this) = Inr d"
    using c l by (simp_all add: field_columns_def field_data_def cell_of_update)
  ultimately show ?thesis unfolding is_table_alt by blast
qed

text \<open>The reads of the methods succeed on a table.\<close>

lemma get_prop_ok: "not_nullish v \<Longrightarrow> \<exists>w. get_prop h v k = Inr w"
  by (cases v) (simp_all add: get_prop_def not_nullish_def)

lemma get_index_ok: "not_nullish v \<Longrightarrow> \<exists>w. get_index h v i = Inr w"
  by (cases v) (simp_all add: get_index_def not_nullish_def)

lemma collect_ok: "(\<And>r. r \<in> set rs \<Longrightarrow> \<exists>x. r = Inr x) \<Longrightarrow> \<exists>xs. collect rs = Inr xs"
proof (induction rs)
  case Nil
  show ?case by simp
next
  case (Cons r rs)
  from Cons.prems [of r] obtain x where r: "r = Inr x" by auto
  from Cons obtain xs where "collect rs = Inr xs" by auto
  with r show ?case by simp
qed

lemma holds_rows_elements:
  "holds_rows h d \<Longrightarrow> \<exists>rows. elements h d = Inr rows \<and> list_all not_nullish rows"
  by (auto simp: holds_rows_def elements_def split: option.splits cell.splits)

lemma holds_rows_index: "holds_rows h d \<Longrightarrow> \<exists>d0. get_index h d i = Inr d0"
  by (cases d) (auto simp: holds_rows_def get_index_def cell_of_def)

lemma holds_rows_is_array: "holds_rows h d \<Longrightarrow> is_array_val h d"
  by (auto simp: holds_rows_def is_array_val_def split: option.splits cell.splits)

lemma is_array_elements: "is_array_val h v \<Longrightarrow> \<exists>xs. elements h v = Inr xs"
  by (auto simp: is_array_val_def elements_def split: option.splits cell.splits)

lemma holds_names_names: "holds_names h v \<Longrightarrow> \<exists>ns. names_of h v = Inr ns"
  by (auto simp: holds_names_def split: sum.splits)

lemma is_table_columns:
  "is_table h this \<Longrightarrow> \<exists>c. field_columns h this = Inr c \<and> holds_names h c"
  by (auto simp: is_table_def field_columns_def split: option.splits cell.splits)

lemma is_table_names: "is_table h this \<Longrightarrow> \<exists>ns. column_names h this = Inr ns"
  using is_table_columns [of h this] holds_names_names
  by (fastforce simp: column_names_def)

lemma is_table_rows:
  "is_table h this \<Longrightarrow> \<exists>rows. rows_of h this = Inr rows \<and> list_all not_nullish rows"
  by (auto simp: is_table_def rows_of_def field_data_def holds_rows_def elements_def
           split: option.splits cell.splits)

lemma column_values_ok:
  assumes "is_table h this"
  shows "\<exists>vs. column_values h this columnName = Inr vs"
proof -
  from is_table_rows [OF assms] obtain rows
    where r: "rows_of h this = Inr rows" and n: "list_all not_nullish rows" by blast
  have "\<exists>xs. collect (map (\<lambda>row. get_prop h row columnName) rows) = Inr xs"
    by (rule collect_ok) (use n get_prop_ok in \<open>auto simp: list_all_iff\<close>)
  with r show ?thesis by (simp add: column_values_def)
qed

lemma detect_type_ok: "is_table h this \<Longrightarrow> \<exists>t. detect_type h this columnName = Inr t"
  using column_values_ok [of h this columnName] by (auto simp: detect_type_def Let_def)

text \<open>The constructor returns a table when it is given rows that can be read and an array of names.\<close>

lemma returns_detect_types:
  "returns (\<lambda>h. is_table h this) (detect_types this) (\<lambda>r h. is_table h this)"
  unfolding detect_types_def
proof (rule returns_and_then [where R = "\<lambda>dts h. is_table h this"])
  show "returns (\<lambda>h. is_table h this) (allocate (ObjectCell [])) (\<lambda>dts h. is_table h this)"
    by (rule returns_allocate) (rule is_table_append)
next
  fix dts
  show "returns (\<lambda>h. is_table h this)
     (and_then (inspect (\<lambda>h. column_names h this)) (\<lambda>cols.
      and_then (fold_effect (\<lambda>columnName u.
                 and_then (inspect (\<lambda>h. detect_type h this columnName)) (\<lambda>t.
                 assign dts (put_prop columnName (VStr t)))) cols ()) (\<lambda>u.
      succeed (VRef dts))))
     (\<lambda>r h. is_table h this)"
  proof (rule returns_and_then [where R = "\<lambda>cols h. is_table h this"])
    show "returns (\<lambda>h. is_table h this) (inspect (\<lambda>h. column_names h this)) (\<lambda>cols h. is_table h this)"
      by (rule returns_inspect) (use is_table_names in blast)
  next
    fix cols :: "string list"
    show "returns (\<lambda>h. is_table h this)
      (and_then (fold_effect (\<lambda>columnName u.
                 and_then (inspect (\<lambda>h. detect_type h this columnName)) (\<lambda>t.
                 assign dts (put_prop columnName (VStr t)))) cols ()) (\<lambda>u.
       succeed (VRef dts)))
      (\<lambda>r h. is_table h this)"
    proof (rule returns_and_then [where R = "\<lambda>u h. is_table h this"])
      show "returns (\<lambda>h. is_table h this)
         (fold_effect (\<lambda>columnName u.
                 and_then (inspect (\<lambda>h. detect_type h this columnName)) (\<lambda>t.
                 assign dts (put_prop columnName (VStr t)))) cols ())
         (\<lambda>u h. is_table h this)"
      proof (rule returns_fold_effect)
        fix columnName and u :: unit
        show "returns (\<lambda>h. is_table h this)
           (and_then (inspect (\<lambda>h. detect_type h this columnName)) (\<lambda>t.
            assign dts (put_prop columnName (VStr t))))
           (\<lambda>u h. is_table h this)"
        proof (rule returns_and_then [where R = "\<lambda>t h. is_table h this"])
          show "returns (\<lambda>h. is_table h this) (inspect (\<lambda>h. detect_type h this columnName))
             (\<lambda>t h. is_table h this)"
            by (rule returns_inspect) (use detect_type_ok in blast)
        next
          fix t
          show "returns (\<lambda>h. is_table h this) (assign dts (put_prop columnName (VStr t)))
             (\<lambda>u h. is_table h this)"
            by (rule returns_assign) simp
        qed
      qed
    next
      fix u :: unit
      show "returns (\<lambda>h. is_table h this) (succeed (VRef dts)) (\<lambda>r h. is_table h this)"
        by (rule returns_succeed)
    qed
  qed
qed

lemma returns_finish_instance:
  "returns (\<lambda>h. is_table h (VRef this)) (finish_instance this) (\<lambda>r h. is_table h r)"
  unfolding finish_instance_def
proof (rule returns_and_then [OF returns_detect_types])
  fix dts
  show "returns (\<lambda>h. is_table h (VRef this))
     (and_then (assign this (set_dtypes dts)) (\<lambda>u. succeed (VRef this)))
     (\<lambda>r h. is_table h r)"
  proof (rule returns_and_then [where R = "\<lambda>u h. is_table h (VRef this)"])
    show "returns (\<lambda>h. is_table h (VRef this)) (assign this (set_dtypes dts))
       (\<lambda>u h. is_table h (VRef this))"
      by (rule returns_assign) simp
  next
    fix u :: unit
    show "returns (\<lambda>h. is_table h (VRef this)) (succeed (VRef this)) (\<lambda>r h. is_table h r)"
      by (rule returns_succeed)
  qed
qed

lemma returns_fill_row:
  assumes app: "\<And>h c. I h \<Longrightarrow> I (h @ [c])"
    and upd: "\<And>h a k x. I h \<Longrightarrow> I (h[a := put_prop k x (h ! a)])"
    and row: "not_nullish row"
  shows "returns I (fill_row names row) (\<lambda>y h. I h \<and> not_nullish y)"
  unfolding fill_row_def
proof (rule returns_and_then [where R = "\<lambda>obj h. I h"])
  show "returns I (allocate (ObjectCell [])) (\<lambda>obj. I)"
    by (rule returns_allocate) (rule app)
next
  fix obj
  show "returns I
     (and_then (fold_effect (\<lambda>(column, index) u.
                 and_then (inspect (\<lambda>h. get_index h row index)) (\<lambda>v.
                 assign obj (put_prop column v))) (zip names [0..<length names]) ()) (\<lambda>u.
      succeed (VRef obj)))
     (\<lambda>y h. I h \<and> not_nullish y)"
  proof (rule returns_and_then [where R = "\<lambda>u h. I h"])
    show "returns I
       (fold_effect (\<lambda>(column, index) u.
                 and_then (inspect (\<lambda>h. get_index h row index)) (\<lambda>v.
                 assign obj (put_prop column v))) (zip names [0..<length names]) ())
       (\<lambda>u. I)"
    proof (rule returns_fold_effect)
      fix x :: "string \<times> nat" and u :: unit
      obtain column index where x: "x = (column, index)" by (cases x)
      have "returns I
         (and_then (inspect (\<lambda>h. get_index h row index)) (\<lambda>v. assign obj (put_prop column v)))
         (\<lambda>u. I)"
      proof (rule returns_and_then [where R = "\<lambda>v h. I h"])
        show "returns I (inspect (\<lambda>h. get_index h row index)) (\<lambda>v. I)"
          by (rule returns_inspect) (use get_index_ok [OF row] in blast)
      next
        fix v
        show "returns I (assign obj (put_prop column v)) (\<lambda>u. I)"
          by (rule returns_assign) (rule upd)
      qed
      with x show "returns I
         ((case x of (column, index) \<Rightarrow> \<lambda>u.
                 and_then (inspect (\<lambda>h. get_index h row index)) (\<lambda>v.
                 assign obj (put_prop column v))) u)
         (\<lambda>u. I)" by simp
    qed
  next
    fix u :: unit
    show "returns I (succeed (VRef obj)) (\<lambda>y h. I h \<and> not_nullish y)"
      by (rule returns_succeed) (simp add: not_nullish_def)
  qed
qed

lemma returns_copy_row:
  assumes app: "\<And>h c. I h \<Longrightarrow> I (h @ [c])"
    and upd: "\<And>h a k x. I h \<Longrightarrow> I (h[a := put_prop k x (h ! a)])"
    and row: "not_nullish row"
  shows "returns I (copy_row cols row) (\<lambda>y h. I h \<and> not_nullish y)"
  unfolding copy_row_def
proof (rule returns_and_then [where R = "\<lambda>obj h. I h"])
  show "returns I (allocate (ObjectCell [])) (\<lambda>obj. I)"
    by (rule returns_allocate) (rule app)
next
  fix newRow
  show "returns I
     (and_then (fold_effect (\<lambda>column u.
                 and_then (inspect (\<lambda>h. get_prop h row column)) (\<lambda>v.
                 assign newRow (put_prop column v))) cols ()) (\<lambda>u.
      succeed (VRef newRow)))
     (\<lambda>y h. I h \<and> not_nullish y)"
  proof (rule returns_and_then [where R = "\<lambda>u h. I h"])
    show "returns I
       (fold_effect (\<lambda>column u.
                 and_then (inspect (\<lambda>h. get_prop h row column)) (\<lambda>v.
                 assign newRow (put_prop column v))) cols ())
       (\<lambda>u. I)"
    proof (rule returns_fold_effect)
      fix column and u :: unit
      show "returns I
         (and_then (inspect (\<lambda>h. get_prop h row column)) (\<lambda>v. assign newRow (put_prop column v)))
         (\<lambda>u. I)"
      proof (rule returns_and_then [where R = "\<lambda>v h. I h"])
        show "returns I (inspect (\<lambda>h. get_prop h row column)) (\<lambda>v. I)"
          by (rule returns_inspect) (use get_prop_ok [OF row] in blast)
      next
        fix v
        show "returns I (assign newRow (put_prop column v)) (\<lambda>u. I)"
          by (rule returns_assign) (rule upd)
      qed
    qed
  next
    fix u :: unit
    show "returns I (succeed (VRef newRow)) (\<lambda>y h. I h \<and> not_nullish y)"
      by (rule returns_succeed) (simp add: not_nullish_def)
  qed
qed

lemma returns_choose_columns:
  "returns (\<lambda>h. holds_rows h d \<and> holds_names h columnsArg \<and> (\<exists>c. field_columns h (VRef this) = Inr c))
     (if use_argument then succeed columnsArg
      else and_then (allocate (NamesCell ns)) (\<lambda>a. succeed (VRef a)))
     (\<lambda>cols h. holds_rows h d \<and> holds_names h cols \<and> (\<exists>c. field_columns h (VRef this) = Inr c))"
proof (cases use_argument)
  case True
  then show ?thesis by (simp add: returns_succeed)
next
  case False
  have "returns (\<lambda>h. holds_rows h d \<and> holds_names h columnsArg \<and> (\<exists>c. field_columns h (VRef this) = Inr c))
     (and_then (allocate (NamesCell ns)) (\<lambda>a. succeed (VRef a)))
     (\<lambda>cols h. holds_rows h d \<and> holds_names h cols \<and> (\<exists>c. field_columns h (VRef this) = Inr c))"
  proof (rule returns_and_then [where R = "\<lambda>a h. holds_rows h d \<and> holds_names h (VRef a)
        \<and> (\<exists>c. field_columns h (VRef this) = Inr c)"])
    show "returns (\<lambda>h. holds_rows h d \<and> holds_names h columnsArg \<and> (\<exists>c. field_columns h (VRef this) = Inr c))
       (allocate (NamesCell ns))
       (\<lambda>a h. holds_rows h d \<and> holds_names h (VRef a) \<and> (\<exists>c. field_columns h (VRef this) = Inr c))"
      by (rule returns_allocate)
         (auto simp: holds_rows_append holds_names_fresh field_columns_append)
  next
    fix a
    show "returns (\<lambda>h. holds_rows h d \<and> holds_names h (VRef a) \<and> (\<exists>c. field_columns h (VRef this) = Inr c))
       (succeed (VRef a))
       (\<lambda>cols h. holds_rows h d \<and> holds_names h cols \<and> (\<exists>c. field_columns h (VRef this) = Inr c))"
      by (rule returns_succeed)
  qed
  with False show ?thesis by simp
qed

lemma returns_set_columns:
  "returns (\<lambda>h. holds_rows h d \<and> holds_names h cols \<and> (\<exists>c. field_columns h (VRef this) = Inr c))
     (assign this (set_columns cols))
     (\<lambda>u h. holds_rows h d \<and> holds_names h cols \<and> field_columns h (VRef this) = Inr cols)"
  by (rule returns_assign) (auto simp: field_columns_set_columns)

lemma returns_set_data:
  "returns (\<lambda>h. holds_rows h d \<and> holds_names h cols \<and> field_columns h (VRef this) = Inr cols)
     (and_then (assign this (set_data d)) (\<lambda>u. finish_instance this))
     (\<lambda>r h. is_table h r)"
proof (rule returns_and_then [where R = "\<lambda>u h. is_table h (VRef this)"])
  show "returns (\<lambda>h. holds_rows h d \<and> holds_names h cols \<and> field_columns h (VRef this) = Inr cols)
     (assign this (set_data d)) (\<lambda>u h. is_table h (VRef this))"
    by (rule returns_assign) (simp add: is_table_set_data)
next
  fix u :: unit
  show "returns (\<lambda>h. is_table h (VRef this)) (finish_instance this) (\<lambda>r h. is_table h r)"
    by (rule returns_finish_instance)
qed

lemma returns_fill_rows:
  "returns (\<lambda>h. holds_rows h d \<and> holds_names h cols \<and> field_columns h (VRef this) = Inr cols)
     (and_then (inspect (\<lambda>h. elements h d)) (\<lambda>rows.
      and_then (inspect (\<lambda>h. names_of h cols)) (\<lambda>names.
      and_then (map_effect (fill_row names) rows) (\<lambda>objs.
      and_then (allocate (ArrayCell objs)) (\<lambda>newData.
      and_then (assign this (set_data (VRef newData))) (\<lambda>u.
      finish_instance this))))))
     (\<lambda>r h. is_table h r)"
proof -
  let ?I = "\<lambda>h. holds_names h cols \<and> field_columns h (VRef this) = Inr cols"
  have app: "?I (h @ [c])" if "?I h" for h c
    using that by (simp add: holds_names_append field_columns_append)
  have upd: "?I (h[a := put_prop k x (h ! a)])" if "?I h" for h a k x
    using that by simp
  show ?thesis
  proof (rule returns_and_then [where R = "\<lambda>rows h. ?I h \<and> list_all not_nullish rows"])
    show "returns (\<lambda>h. holds_rows h d \<and> holds_names h cols \<and> field_columns h (VRef this) = Inr cols)
       (inspect (\<lambda>h. elements h d)) (\<lambda>rows h. ?I h \<and> list_all not_nullish rows)"
      by (rule returns_inspect) (use holds_rows_elements in blast)
  next
    fix rows
    show "returns (\<lambda>h. ?I h \<and> list_all not_nullish rows)
       (and_then (inspect (\<lambda>h. names_of h cols)) (\<lambda>names.
        and_then (map_effect (fill_row names) rows) (\<lambda>objs.
        and_then (allocate (ArrayCell objs)) (\<lambda>newData.
        and_then (assign this (set_data (VRef newData))) (\<lambda>u.
        finish_instance this)))))
       (\<lambda>r h. is_table h r)"
    proof (rule returns_assume)
      assume rows: "list_all not_nullish rows"
      show "returns ?I
         (and_then (inspect (\<lambda>h. names_of h cols)) (\<lambda>names.
          and_then (map_effect (fill_row names) rows) (\<lambda>objs.
          and_then (allocate (ArrayCell objs)) (\<lambda>newData.
          and_then (assign this (set_data (VRef newData))) (\<lambda>u.
          finish_instance this)))))
         (\<lambda>r h. is_table h r)"
      proof (rule returns_and_then [where R = "\<lambda>names. ?I"])
        show "returns ?I (inspect (\<lambda>h. names_of h cols)) (\<lambda>names. ?I)"
          by (rule returns_inspect) (use holds_names_names in blast)
      next
        fix names
        show "returns ?I
           (and_then (map_effect (fill_row names) rows) (\<lambda>objs.
            and_then (allocate (ArrayCell objs)) (\<lambda>newData.
            and_then (assign this (set_data (VRef newData))) (\<lambda>u.
            finish_instance this))))
           (\<lambda>r h. is_table h r)"
        proof (rule returns_and_then [where R = "\<lambda>objs h. ?I h \<and> list_all not_nullish objs"])
          show "returns ?I (map_effect (fill_row names) rows)
             (\<lambda>objs h. ?I h \<and> list_all not_nullish objs)"
          proof (rule returns_map_effect)
            fix row assume "row \<in> set rows"
            with rows have "not_nullish row" by (simp add: list_all_iff)
            then show "returns ?I (fill_row names row) (\<lambda>y h. ?I h \<and> not_nullish y)"
              by (intro returns_fill_row app upd)
          qed
        next
          fix objs
          show "returns (\<lambda>h. ?I h \<and> list_all not_nullish objs)
             (and_then (allocate (ArrayCell objs)) (\<lambda>newData.
              and_then (assign this (set_data (VRef newData))) (\<lambda>u.
              finish_instance this)))
             (\<lambda>r h. is_table h r)"
          proof (rule returns_and_then [where R = "\<lambda>newData h. holds_rows h (VRef newData)
                \<and> holds_names h cols \<and> field_columns h (VRef this) = Inr cols"])
            show "returns (\<lambda>h. ?I h \<and> list_all not_nullish objs) (allocate (ArrayCell objs))
               (\<lambda>newData h. holds_rows h (VRef newData)
                  \<and> holds_names h cols \<and> field_columns h (VRef this) = Inr cols)"
              by (rule returns_allocate)
                 (simp add: holds_rows_fresh holds_names_append field_columns_append)
          next
            fix newData
            show "returns (\<lambda>h. holds_rows h (VRef newData)
                  \<and> holds_names h cols \<and> field_columns h (VRef this) = Inr cols)
               (and_then (assign this (set_data (VRef newData))) (\<lambda>u. finish_instance this))
               (\<lambda>r h. is_table h r)"
              by (rule returns_set_data)
          qed
        qed
      qed
    qed
  qed
qed

lemma returns_rows_of_arrays:
  "returns (\<lambda>h. (holds_rows h d \<and> holds_names h columnsArg \<and> (\<exists>c. field_columns h (VRef this) = Inr c))
              \<and> is_array_val h d0)
     (and_then (inspect (\<lambda>h. elements h d0)) (\<lambda>first.
      and_then (inspect (\<lambda>h. Inr (case names_of h columnsArg of
                                      Inr cs \<Rightarrow> length cs = length first
                                    | Inl e \<Rightarrow> False))) (\<lambda>use_argument.
      and_then (if use_argument then succeed columnsArg
                else and_then (allocate (NamesCell (auto_columns (length first))))
                       (\<lambda>a. succeed (VRef a))) (\<lambda>cols.
      and_then (assign this (set_columns cols)) (\<lambda>u.
      and_then (inspect (\<lambda>h. elements h d)) (\<lambda>rows.
      and_then (inspect (\<lambda>h. names_of h cols)) (\<lambda>names.
      and_then (map_effect (fill_row names) rows) (\<lambda>objs.
      and_then (allocate (ArrayCell objs)) (\<lambda>newData.
      and_then (assign this (set_data (VRef newData))) (\<lambda>u.
      finish_instance this))))))))))
     (\<lambda>r h. is_table h r)"
proof -
  let ?P = "\<lambda>h. holds_rows h d \<and> holds_names h columnsArg \<and> (\<exists>c. field_columns h (VRef this) = Inr c)"
  show ?thesis
  proof (rule returns_and_then [where R = "\<lambda>first. ?P"])
    show "returns (\<lambda>h. ?P h \<and> is_array_val h d0) (inspect (\<lambda>h. elements h d0)) (\<lambda>first. ?P)"
      by (rule returns_inspect) (use is_array_elements in blast)
  next
    fix first
    show "returns ?P
       (and_then (inspect (\<lambda>h. Inr (case names_of h columnsArg of
                                      Inr cs \<Rightarrow> length cs = length first
                                    | Inl e \<Rightarrow> False))) (\<lambda>use_argument.
        and_then (if use_argument then succeed columnsArg
                  else and_then (allocate (NamesCell (auto_columns (length first))))
                         (\<lambda>a. succeed (VRef a))) (\<lambda>cols.
        and_then (assign this (set_columns cols)) (\<lambda>u.
        and_then (inspect (\<lambda>h. elements h d)) (\<lambda>rows.
        and_then (inspect (\<lambda>h. names_of h cols)) (\<lambda>names.
        and_then (map_effect (fill_row names) rows) (\<lambda>objs.
        and_then (allocate (ArrayCell objs)) (\<lambda>newData.
        and_then (assign this (set_data (VRef newData))) (\<lambda>u.
        finish_instance this)))))))))
       (\<lambda>r h. is_table h r)"
    proof (rule returns_and_then [where R = "\<lambda>use_argument. ?P"])
      show "returns ?P (inspect (\<lambda>h. Inr (case names_of h columnsArg of
                                      Inr cs \<Rightarrow> length cs = length first
                                    | Inl e \<Rightarrow> False))) (\<lambda>use_argument. ?P)"
        by (rule returns_inspect) blast
    next
      fix use_argument
      show "returns ?P
         (and_then (if use_argument then succeed columnsArg
                    else and_then (allocate (NamesCell (auto_columns (length first))))
                           (\<lambda>a. succeed (VRef a))) (\<lambda>cols.
          and_then (assign this (set_columns cols)) (\<lambda>u.
          and_then (inspect (\<lambda>h. elements h d)) (\<lambda>rows.
          and_then (inspect (\<lambda>h. names_of h cols)) (\<lambda>names.
          and_then (map_effect (fill_row names) rows) (\<lambda>objs.
          and_then (allocate (ArrayCell objs)) (\<lambda>newData.
          and_then (assign this (set_data (VRef newData))) (\<lambda>u.
          finish_instance this))))))))
         (\<lambda>r h. is_table h r)"
        by (rule returns_and_then [OF returns_choose_columns],
            rule returns_and_then [OF returns_set_columns],
            rule returns_fill_rows)
    qed
  qed
qed

lemma returns_keys_columns:
  "returns (\<lambda>h. holds_rows h d \<and> holds_names h columnsArg \<and> (\<exists>c. field_columns h (VRef this) = Inr c))
     (if truthy_first
      then and_then (inspect (\<lambda>h. Inr (keys_of h d0))) (\<lambda>ks.
           and_then (allocate (NamesCell ks)) (\<lambda>a. succeed (VRef a)))
      else succeed columnsArg)
     (\<lambda>cols h. holds_rows h d \<and> holds_names h cols \<and> (\<exists>c. field_columns h (VRef this) = Inr c))"
proof (cases truthy_first)
  case False
  then show ?thesis by (simp add: returns_succeed)
next
  case True
  let ?P = "\<lambda>h. holds_rows h d \<and> holds_names h columnsArg \<and> (\<exists>c. field_columns h (VRef this) = Inr c)"
  have "returns ?P
     (and_then (inspect (\<lambda>h. Inr (keys_of h d0))) (\<lambda>ks.
      and_then (allocate (NamesCell ks)) (\<lambda>a. succeed (VRef a))))
     (\<lambda>cols h. holds_rows h d \<and> holds_names h cols \<and> (\<exists>c. field_columns h (VRef this) = Inr c))"
  proof (rule returns_and_then [where R = "\<lambda>ks. ?P"])
    show "returns ?P (inspect (\<lambda>h. Inr (keys_of h d0))) (\<lambda>ks. ?P)"
      by (rule returns_inspect) blast
  next
    fix ks
    show "returns ?P (and_then (allocate (NamesCell ks)) (\<lambda>a. succeed (VRef a)))
       (\<lambda>cols h. holds_rows h d \<and> holds_names h cols \<and> (\<exists>c. field_columns h (VRef this) = Inr c))"
      using returns_choose_columns [of d columnsArg this False ks] by simp
  qed
  with True show ?thesis by simp
qed

lemma returns_construct:
  "returns (\<lambda>h. holds_rows h d \<and> holds_names h columnsArg) (construct d columnsArg)
     (\<lambda>r h. is_table h r)"
  unfolding construct_def
proof (rule returns_and_then [where R = "\<lambda>this h. holds_rows h d \<and> holds_names h columnsArg
        \<and> (\<exists>c. field_columns h (VRef this) = Inr c)"])
  show "returns (\<lambda>h. holds_rows h d \<and> holds_names h columnsArg)
     (allocate (FrameCell VUndefined VUndefined VUndefined))
     (\<lambda>this h. holds_rows h d \<and> holds_names h columnsArg
        \<and> (\<exists>c. field_columns h (VRef this) = Inr c))"
    by (rule returns_allocate)
       (simp add: holds_rows_append holds_names_append field_columns_fresh)
next
  fix this
  let ?P = "\<lambda>h. holds_rows h d \<and> holds_names h columnsArg
        \<and> (\<exists>c. field_columns h (VRef this) = Inr c)"
  show "returns ?P
     (and_then (inspect (\<lambda>h. get_index h d 0)) (\<lambda>d0.
      and_then (inspect (\<lambda>h. Inr (is_array_val h d0, is_array_val h d))) (\<lambda>(first_is_array, data_is_array).
       if first_is_array then
         and_then (inspect (\<lambda>h. elements h d0)) (\<lambda>first.
         and_then (inspect (\<lambda>h. Inr (case names_of h columnsArg of
                                         Inr cs \<Rightarrow> length cs = length first
                                       | Inl e \<Rightarrow> False))) (\<lambda>use_argument.
         and_then (if use_argument then succeed columnsArg
                   else and_then (allocate (NamesCell (auto_columns (length first))))
                          (\<lambda>a. succeed (VRef a))) (\<lambda>cols.
         and_then (assign this (set_columns cols)) (\<lambda>u.
         and_then (inspect (\<lambda>h. elements h d)) (\<lambda>rows.
         and_then (inspect (\<lambda>h. names_of h cols)) (\<lambda>names.
         and_then (map_effect (fill_row names) rows) (\<lambda>objs.
         and_then (allocate (ArrayCell objs)) (\<lambda>newData.
         and_then (assign this (set_data (VRef newData))) (\<lambda>u.
         finish_instance this)))))))))
       else if data_is_array then
         and_then (if is_truthy d0
                   then and_then (inspect (\<lambda>h. Inr (keys_of h d0))) (\<lambda>ks.
                        and_then (allocate (NamesCell ks)) (\<lambda>a. succeed (VRef a)))
                   else succeed columnsArg) (\<lambda>cols.
         and_then (assign this (set_columns cols)) (\<lambda>u.
         and_then (assign this (set_data d)) (\<lambda>u.
         finish_instance this)))
       else fail InvalidInputFormat)))
     (\<lambda>r h. is_table h r)"
  proof (rule returns_and_then [where R = "\<lambda>d0. ?P"])
    show "returns ?P (inspect (\<lambda>h. get_index h d 0)) (\<lambda>d0. ?P)"
      by (rule returns_inspect) (use holds_rows_index in blast)
  next
    fix d0
    show "returns ?P
       (and_then (inspect (\<lambda>h. Inr (is_array_val h d0, is_array_val h d))) (\<lambda>(first_is_array, data_is_array).
       if first_is_array then
         and_then (inspect (\<lambda>h. elements h d0)) (\<lambda>first.
         and_then (inspect (\<lambda>h. Inr (case names_of h columnsArg of
                                         Inr cs \<Rightarrow> length cs = length first
                                       | Inl e \<Rightarrow> False))) (\<lambda>use_argument.
         and_then (if use_argument then succeed columnsArg
                   else and_then (allocate (NamesCell (auto_columns (length first))))
                          (\<lambda>a. succeed (VRef a))) (\<lambda>cols.
         and_then (assign this (set_columns cols)) (\<lambda>u.
         and_then (inspect (\<lambda>h. elements h d)) (\<lambda>rows.
         and_then (inspect (\<lambda>h. names_of h cols)) (\<lambda>names.
         and_then (map_effect (fill_row names) rows) (\<lambda>objs.
         and_then (allocate (ArrayCell objs)) (\<lambda>newData.
         and_then (assign this (set_data (VRef newData))) (\<lambda>u.
         finish_instance this)))))))))
       else if data_is_array then
         and_then (if is_truthy d0
                   then and_then (inspect (\<lambda>h. Inr (keys_of h d0))) (\<lambda>ks.
                        and_then (allocate (NamesCell ks)) (\<lambda>a. succeed (VRef a)))
                   else succeed columnsArg) (\<lambda>cols.
         and_then (assign this (set_columns cols)) (\<lambda>u.
         and_then (assign this (set_data d)) (\<lambda>u.
         finish_instance this)))
       else fail InvalidInputFormat))
       (\<lambda>r h. is_table h r)"
    proof (rule returns_and_then [where R = "\<lambda>x h. (?P h \<and> (fst x \<longrightarrow> is_array_val h d0)) \<and> snd x"])
      show "returns ?P (inspect (\<lambda>h. Inr (is_array_val h d0, is_array_val h d)))
         (\<lambda>x h. (?P h \<and> (fst x \<longrightarrow> is_array_val h d0)) \<and> snd x)"
        by (rule returns_inspect) (simp add: holds_rows_is_array)
    next
      fix x :: "bool \<times> bool"
      obtain first_is_array data_is_array where x: "x = (first_is_array, data_is_array)"
        by (cases x)
      have "returns (\<lambda>h. (?P h \<and> (first_is_array \<longrightarrow> is_array_val h d0)) \<and> data_is_array)
       (if first_is_array then
         and_then (inspect (\<lambda>h. elements h d0)) (\<lambda>first.
         and_then (inspect (\<lambda>h. Inr (case names_of h columnsArg of
                                         Inr cs \<Rightarrow> length cs = length first
                                       | Inl e \<Rightarrow> False))) (\<lambda>use_argument.
         and_then (if use_argument then succeed columnsArg
                   else and_then (allocate (NamesCell (auto_columns (length first))))
                          (\<lambda>a. succeed (VRef a))) (\<lambda>cols.
         and_then (assign this (set_columns cols)) (\<lambda>u.
         and_then (inspect (\<lambda>h. elements h d)) (\<lambda>rows.
         and_then (inspect (\<lambda>h. names_of h cols)) (\<lambda>names.
         and_then (map_effect (fill_row names) rows) (\<lambda>objs.
         and_then (allocate (ArrayCell objs)) (\<lambda>newData.
         and_then (assign this (set_data (VRef newData))) (\<lambda>u.
         finish_instance this)))))))))
       else if data_is_array then
         and_then (if is_truthy d0
                   then and_then (inspect (\<lambda>h. Inr (keys_of h d0))) (\<lambda>ks.
                        and_then (allocate (NamesCell ks)) (\<lambda>a. succeed (VRef a)))
                   else succeed columnsArg) (\<lambda>cols.
         and_then (assign this (set_columns cols)) (\<lambda>u.
         and_then (assign this (set_data d)) (\<lambda>u.
         finish_instance this)))
       else fail InvalidInputFormat)
       (\<lambda>r h. is_table h r)"
      proof (rule returns_assume)
        assume da: data_is_array
        show "returns (\<lambda>h. ?P h \<and> (first_is_array \<longrightarrow> is_array_val h d0))
         (if first_is_array then
           and_then (inspect (\<lambda>h. elements h d0)) (\<lambda>first.
           and_then (inspect (\<lambda>h. Inr (case names_of h columnsArg of
                                           Inr cs \<Rightarrow> length cs = length first
                                         | Inl e \<Rightarrow> False))) (\<lambda>use_argument.
           and_then (if use_argument then succeed columnsArg
                     else and_then (allocate (NamesCell (auto_columns (length first))))
                            (\<lambda>a. succeed (VRef a))) (\<lambda>cols.
           and_then (assign this (set_columns cols)) (\<lambda>u.
           and_then (inspect (\<lambda>h. elements h d)) (\<lambda>rows.
           and_then (inspect (\<lambda>h. names_of h cols)) (\<lambda>names.
           and_then (map_effect (fill_row names) rows) (\<lambda>objs.
           and_then (allocate (ArrayCell objs)) (\<lambda>newData.
           and_then (assign this (set_data (VRef newData))) (\<lambda>u.
           finish_instance this)))))))))
         else if data_is_array then
           and_then (if is_truthy d0
                     then and_then (inspect (\<lambda>h. Inr (keys_of h d0))) (\<lambda>ks.
                          and_then (allocate (NamesCell ks)) (\<lambda>a. succeed (VRef a)))
                     else succeed columnsArg) (\<lambda>cols.
           and_then (assign this (set_columns cols)) (\<lambda>u.
           and_then (assign this (set_data d)) (\<lambda>u.
           finish_instance this)))
         else fail InvalidInputFormat)
         (\<lambda>r h. is_table h r)"
        proof (cases first_is_array)
          case True
          then show ?thesis
            using returns_rows_of_arrays [of d columnsArg this d0] by simp
        next
          case False
          have "returns ?P
             (and_then (if is_truthy d0
                     then and_then (inspect (\<lambda>h. Inr (keys_of h d0))) (\<lambda>ks.
                          and_then (allocate (NamesCell ks)) (\<lambda>a. succeed (VRef a)))
                     else succeed columnsArg) (\<lambda>cols.
              and_then (assign this (set_columns cols)) (\<lambda>u.
              and_then (assign this (set_data d)) (\<lambda>u.
              finish_instance this))))
             (\<lambda>r h. is_table h r)"
            by (rule returns_and_then [OF returns_keys_columns],
                rule returns_and_then [OF returns_set_columns],
                rule returns_set_data)
          with False da show ?thesis by simp
        qed
      qed
      with x show "returns (\<lambda>h. (?P h \<and> (fst x \<longrightarrow> is_array_val h d0)) \<and> snd x)
       (case x of (first_is_array, data_is_array) \<Rightarrow>
       if first_is_array then
         and_then (inspect (\<lambda>h. elements h d0)) (\<lambda>first.
         and_then (inspect (\<lambda>h. Inr (case names_of h columnsArg of
                                         Inr cs \<Rightarrow> length cs = length first
                                       | Inl e \<Rightarrow> False))) (\<lambda>use_argument.
         and_then (if use_argument then succeed columnsArg
                   else and_then (allocate (NamesCell (auto_columns (length first))))
                          (\<lambda>a. succeed (VRef a))) (\<lambda>cols.
         and_then (assign this (set_columns cols)) (\<lambda>u.
         and_then (inspect (\<lambda>h. elements h d)) (\<lambda>rows.
         and_then (inspect (\<lambda>h. names_of h cols)) (\<lambda>names.
         and_then (map_effect (fill_row names) rows) (\<lambda>objs.
         and_then (allocate (ArrayCell objs)) (\<lambda>newData.
         and_then (assign this (set_data (VRef newData))) (\<lambda>u.
         finish_instance this)))))))))
       else if data_is_array then
         and_then (if is_truthy d0
                   then and_then (inspect (\<lambda>h. Inr (keys_of h d0))) (\<lambda>ks.
                        and_then (allocate (NamesCell ks)) (\<lambda>a. succeed (VRef a)))
                   else succeed columnsArg) (\<lambda>cols.
         and_then (assign this (set_columns cols)) (\<lambda>u.
         and_then (assign this (set_data d)) (\<lambda>u.
         finish_instance this)))
       else fail InvalidInputFormat)
       (\<lambda>r h. is_table h r)" by simp
    qed
  qed
qed

text \<open>Each derivation method, called on a table, returns a table.\<close>

lemma returns_select:
  "returns (\<lambda>h. is_table h this) (select_st this arg) (\<lambda>r h. is_table h r)"
  unfolding select_st_def
proof (rule returns_and_then [where R = "\<lambda>cols h. is_table h this"])
  show "returns (\<lambda>h. is_table h this) (inspect (\<lambda>h. column_names h this)) (\<lambda>cols h. is_table h this)"
    by (rule returns_inspect) (use is_table_names in blast)
next
  fix cols :: "string list"
  let ?ns = "filter (\<lambda>column. column \<in> set cols) (to_names arg)"
  show "returns (\<lambda>h. is_table h this)
     (and_then (allocate (NamesCell ?ns)) (\<lambda>newColumns.
      and_then (inspect (\<lambda>h. names_of h (VRef newColumns))) (\<lambda>names.
      and_then (inspect (\<lambda>h. rows_of h this)) (\<lambda>rows.
      and_then (map_effect (copy_row names) rows) (\<lambda>newRows.
      and_then (allocate (ArrayCell newRows)) (\<lambda>newData.
      construct (VRef newData) (VRef newColumns)))))))
     (\<lambda>r h. is_table h r)"
  proof (rule returns_and_then [where R = "\<lambda>nc h. is_table h this \<and> holds_names h (VRef nc)"])
    show "returns (\<lambda>h. is_table h this) (allocate (NamesCell ?ns))
       (\<lambda>nc h. is_table h this \<and> holds_names h (VRef nc))"
      by (rule returns_allocate) (simp add: is_table_append holds_names_fresh)
  next
    fix nc
    let ?I = "\<lambda>h. holds_names h (VRef nc)"
    have app: "?I (h @ [c])" if "?I h" for h c
      using that by (simp add: holds_names_append)
    have upd: "?I (h[a := put_prop k x (h ! a)])" if "?I h" for h a k x
      using that by simp
    show "returns (\<lambda>h. is_table h this \<and> holds_names h (VRef nc))
       (and_then (inspect (\<lambda>h. names_of h (VRef nc))) (\<lambda>names.
        and_then (inspect (\<lambda>h. rows_of h this)) (\<lambda>rows.
        and_then (map_effect (copy_row names) rows) (\<lambda>newRows.
        and_then (allocate (ArrayCell newRows)) (\<lambda>newData.
        construct (VRef newData) (VRef nc))))))
       (\<lambda>r h. is_table h r)"
    proof (rule returns_and_then [where R = "\<lambda>names h. is_table h this \<and> holds_names h (VRef nc)"])
      show "returns (\<lambda>h. is_table h this \<and> holds_names h (VRef nc))
         (inspect (\<lambda>h. names_of h (VRef nc)))
         (\<lambda>names h. is_table h this \<and> holds_names h (VRef nc))"
        by (rule returns_inspect) (use holds_names_names in blast)
    next
      fix names
      show "returns (\<lambda>h. is_table h this \<and> holds_names h (VRef nc))
         (and_then (inspect (\<lambda>h. rows_of h this)) (\<lambda>rows.
          and_then (map_effect (copy_row names) rows) (\<lambda>newRows.
          and_then (allocate (ArrayCell newRows)) (\<lambda>newData.
          construct (VRef newData) (VRef nc)))))
         (\<lambda>r h. is_table h r)"
      proof (rule returns_and_then [where R = "\<lambda>rows h. ?I h \<and> list_all not_nullish rows"])
        show "returns (\<lambda>h. is_table h this \<and> holds_names h (VRef nc))
           (inspect (\<lambda>h. rows_of h this)) (\<lambda>rows h. ?I h \<and> list_all not_nullish rows)"
          by (rule returns_inspect) (use is_table_rows in blast)
      next
        fix rows
        show "returns (\<lambda>h. ?I h \<and> list_all not_nullish rows)
           (and_then (map_effect (copy_row names) rows) (\<lambda>newRows.
            and_then (allocate (ArrayCell newRows)) (\<lambda>newData.
            construct (VRef newData) (VRef nc))))
           (\<lambda>r h. is_table h r)"
        proof (rule returns_assume)
          assume rows: "list_all not_nullish rows"
          show "returns ?I
             (and_then (map_effect (copy_row names) rows) (\<lambda>newRows.
              and_then (allocate (ArrayCell newRows)) (\<lambda>newData.
              construct (VRef newData) (VRef nc))))
             (\<lambda>r h. is_table h r)"
          proof (rule returns_and_then [where R = "\<lambda>newRows h. ?I h \<and> list_all not_nullish newRows"])
            show "returns ?I (map_effect (copy_row names) rows)
               (\<lambda>newRows h. ?I h \<and> list_all not_nullish newRows)"
            proof (rule returns_map_effect)
              fix row assume "row \<in> set rows"
              with rows have "not_nullish row" by (simp add: list_all_iff)
              then show "returns ?I (copy_row names row) (\<lambda>y h. ?I h \<and> not_nullish y)"
                by (intro returns_copy_row app upd)
            qed
          next
            fix newRows
            show "returns (\<lambda>h. ?I h \<and> list_all not_nullish newRows)
               (and_then (allocate (ArrayCell newRows)) (\<lambda>newData.
                construct (VRef newData) (VRef nc)))
               (\<lambda>r h. is_table h r)"
            proof (rule returns_and_then [where R = "\<lambda>newData h. holds_rows h (VRef newData)
                  \<and> holds_names h (VRef nc)"])
              show "returns (\<lambda>h. ?I h \<and> list_all not_nullish newRows) (allocate (ArrayCell newRows))
                 (\<lambda>newData h. holds_rows h (VRef newData) \<and> holds_names h (VRef nc))"
                by (rule returns_allocate) (simp add: holds_rows_fresh holds_names_append)
            next
              fix newData
              show "returns (\<lambda>h. holds_rows h (VRef newData) \<and> holds_names h (VRef nc))
                 (construct (VRef newData) (VRef nc)) (\<lambda>r h. is_table h r)"
                by (rule returns_construct)
            qed
          qed
        qed
      qed
    qed
  qed
qed

lemma returns_filter:
  "returns (\<lambda>h. is_table h this) (filter_st this condition) (\<lambda>r h. is_table h r)"
  unfolding filter_st_def
proof (rule returns_and_then [where R = "\<lambda>rows h. is_table h this \<and> list_all not_nullish rows"])
  show "returns (\<lambda>h. is_table h this) (inspect (\<lambda>h. rows_of h this))
     (\<lambda>rows h. is_table h this \<and> list_all not_nullish rows)"
    by (rule returns_inspect) (use is_table_rows in blast)
next
  fix rows
  show "returns (\<lambda>h. is_table h this \<and> list_all not_nullish rows)
     (and_then (inspect (\<lambda>h. Inr (filter (condition h) rows))) (\<lambda>kept.
      and_then (allocate (ArrayCell kept)) (\<lambda>filteredData.
      and_then (inspect (\<lambda>h. field_columns h this)) (\<lambda>cols.
      construct (VRef filteredData) cols))))
     (\<lambda>r h. is_table h r)"
  proof (rule returns_and_then [where R = "\<lambda>kept h. is_table h this \<and> list_all not_nullish kept"])
    show "returns (\<lambda>h. is_table h this \<and> list_all not_nullish rows)
       (inspect (\<lambda>h. Inr (filter (condition h) rows)))
       (\<lambda>kept h. is_table h this \<and> list_all not_nullish kept)"
      by (rule returns_inspect) (simp add: list_all_iff)
  next
    fix kept
    show "returns (\<lambda>h. is_table h this \<and> list_all not_nullish kept)
       (and_then (allocate (ArrayCell kept)) (\<lambda>filteredData.
        and_then (inspect (\<lambda>h. field_columns h this)) (\<lambda>cols.
        construct (VRef filteredData) cols)))
       (\<lambda>r h. is_table h r)"
    proof (rule returns_and_then [where R = "\<lambda>fd h. is_table h this \<and> holds_rows h (VRef fd)"])
      show "returns (\<lambda>h. is_table h this \<and> list_all not_nullish kept) (allocate (ArrayCell kept))
         (\<lambda>fd h. is_table h this \<and> holds_rows h (VRef fd))"
        by (rule returns_allocate) (simp add: is_table_append holds_rows_fresh)
    next
      fix fd
      show "returns (\<lambda>h. is_table h this \<and> holds_rows h (VRef fd))
         (and_then (inspect (\<lambda>h. field_columns h this)) (\<lambda>cols. construct (VRef fd) cols))
         (\<lambda>r h. is_table h r)"
      proof (rule returns_and_then [where R = "\<lambda>cols h. holds_rows h (VRef fd) \<and> holds_names h cols"])
        show "returns (\<lambda>h. is_table h this \<and> holds_rows h (VRef fd))
           (inspect (\<lambda>h. field_columns h this))
           (\<lambda>cols h. holds_rows h (VRef fd) \<and> holds_names h cols)"
          by (rule returns_inspect) (use is_table_columns in blast)
      next
        fix cols
        show "returns (\<lambda>h. holds_rows h (VRef fd) \<and> holds_names h cols)
           (construct (VRef fd) cols) (\<lambda>r h. is_table h r)"
          by (rule returns_construct)
      qed
    qed
  qed
qed

lemma sorted_content_ok:
  assumes "list_all not_nullish rows"
  shows "\<exists>sorted. sorted_content lt ascending cols rows h = Inr sorted \<and> list_all not_nullish sorted"
proof -
  from assms have n: "VNull \<notin> set rows" and u: "VUndefined \<notin> set rows"
    by (auto simp: list_all_iff not_nullish_def)
  from u have c: "filter (\<lambda>x. x \<noteq> VUndefined) rows = rows"
    and e: "filter (\<lambda>x. x = VUndefined) rows = []"
    by (auto simp: filter_empty_conv filter_id_conv)
  have "list_all not_nullish (sort_by (compare_stored (lt h) h ascending cols) rows)"
    using assms by (simp add: list_all_iff set_sort_by)
  with n c e show ?thesis by (simp add: sorted_content_def Let_def)
qed

lemma array_update_reads:
  assumes "cell_of h (VRef a) = Some (ArrayCell xs)"
  shows "field_columns (h[a := ArrayCell ys]) v = field_columns h v"
    and "holds_names (h[a := ArrayCell ys]) v = holds_names h v"
  using assms
  by (auto simp: field_columns_def holds_names_def names_of_def cell_of_update)

lemma array_update_rows:
  "cell_of h (VRef a) = Some c \<Longrightarrow> list_all not_nullish ys \<Longrightarrow>
   holds_rows (h[a := ArrayCell ys]) (VRef a)"
  by (auto simp: holds_rows_def cell_of_update cell_of_def split: if_splits)

lemma returns_sortBy:
  "returns (\<lambda>h. is_table h this) (sortBy_st lt this cols arg) (\<lambda>r h. is_table h r)"
  unfolding sortBy_st_def
proof (rule returns_and_then [where R = "\<lambda>rows h. is_table h this \<and> list_all not_nullish rows"])
  show "returns (\<lambda>h. is_table h this) (inspect (\<lambda>h. rows_of h this))
     (\<lambda>rows h. is_table h this \<and> list_all not_nullish rows)"
    by (rule returns_inspect) (use is_table_rows in blast)
next
  fix rows
  let ?asc = "case arg of None \<Rightarrow> True | Some b \<Rightarrow> b"
  show "returns (\<lambda>h. is_table h this \<and> list_all not_nullish rows)
     (and_then (allocate (ArrayCell rows)) (\<lambda>sortData.
      and_then (inspect (sorted_content lt ?asc cols rows)) (\<lambda>sorted.
      and_then (assign sortData (\<lambda>c. ArrayCell sorted)) (\<lambda>u.
      and_then (inspect (\<lambda>h. field_columns h this)) (\<lambda>columns.
      construct (VRef sortData) columns)))))
     (\<lambda>r h. is_table h r)"
  proof (rule returns_and_then [where R = "\<lambda>sd h. (is_table h this
        \<and> cell_of h (VRef sd) = Some (ArrayCell rows)) \<and> list_all not_nullish rows"])
    show "returns (\<lambda>h. is_table h this \<and> list_all not_nullish rows) (allocate (ArrayCell rows))
       (\<lambda>sd h. (is_table h this \<and> cell_of h (VRef sd) = Some (ArrayCell rows))
          \<and> list_all not_nullish rows)"
      by (rule returns_allocate) (simp add: is_table_append cell_of_fresh)
  next
    fix sd
    let ?P = "\<lambda>h. is_table h this \<and> cell_of h (VRef sd) = Some (ArrayCell rows)"
    show "returns (\<lambda>h. ?P h \<and> list_all not_nullish rows)
       (and_then (inspect (sorted_content lt ?asc cols rows)) (\<lambda>sorted.
        and_then (assign sd (\<lambda>c. ArrayCell sorted)) (\<lambda>u.
        and_then (inspect (\<lambda>h. field_columns h this)) (\<lambda>columns.
        construct (VRef sd) columns))))
       (\<lambda>r h. is_table h r)"
    proof (rule returns_and_then [where R = "\<lambda>sorted h. ?P h \<and> list_all not_nullish sorted"])
      show "returns (\<lambda>h. ?P h \<and> list_all not_nullish rows)
         (inspect (sorted_content lt ?asc cols rows))
         (\<lambda>sorted h. ?P h \<and> list_all not_nullish sorted)"
        by (rule returns_inspect) (use sorted_content_ok in blast)
    next
      fix sorted
      show "returns (\<lambda>h. ?P h \<and> list_all not_nullish sorted)
         (and_then (assign sd (\<lambda>c. ArrayCell sorted)) (\<lambda>u.
          and_then (inspect (\<lambda>h. field_columns h this)) (\<lambda>columns.
          construct (VRef sd) columns)))
         (\<lambda>r h. is_table h r)"
      proof (rule returns_and_then [where R = "\<lambda>u h. holds_rows h (VRef sd)
            \<and> (\<exists>c. field_columns h this = Inr c \<and> holds_names h c)"])
        show "returns (\<lambda>h. ?P h \<and> list_all not_nullish sorted)
           (assign sd (\<lambda>c. ArrayCell sorted))
           (\<lambda>u h. holds_rows h (VRef sd) \<and> (\<exists>c. field_columns h this = Inr c \<and> holds_names h c))"
        proof (rule returns_assign)
          fix h assume a: "?P h \<and> list_all not_nullish sorted"
          then have c: "cell_of h (VRef sd) = Some (ArrayCell rows)" by simp
          from a is_table_columns obtain cs where "field_columns h this = Inr cs" "holds_names h cs"
            by blast
          then have "field_columns (h[sd := ArrayCell sorted]) this = Inr cs"
            "holds_names (h[sd := ArrayCell sorted]) cs"
            by (simp_all add: array_update_reads [OF c])
          moreover have "holds_rows (h[sd := ArrayCell sorted]) (VRef sd)"
            using a c by (simp add: array_update_rows)
          ultimately show "holds_rows (h[sd := ArrayCell sorted]) (VRef sd)
            \<and> (\<exists>c. field_columns (h[sd := ArrayCell sorted]) this = Inr c
                   \<and> holds_names (h[sd := ArrayCell sorted]) c)" by blast
        qed
      next
        fix u :: unit
        show "returns (\<lambda>h. holds_rows h (VRef sd) \<and> (\<exists>c. field_columns h this = Inr c \<and> holds_names h c))
           (and_then (inspect (\<lambda>h. field_columns h this)) (\<lambda>columns. construct (VRef sd) columns))
           (\<lambda>r h. is_table h r)"
        proof (rule returns_and_then [where R = "\<lambda>columns h. holds_rows h (VRef sd) \<and> holds_names h columns"])
          show "returns (\<lambda>h. holds_rows h (VRef sd) \<and> (\<exists>c. field_columns h this = Inr c \<and> holds_names h c))
             (inspect (\<lambda>h. field_columns h this))
             (\<lambda>columns h. holds_rows h (VRef sd) \<and> holds_names h columns)"
            by (rule returns_inspect) blast
        next
          fix columns
          show "returns (\<lambda>h. holds_rows h (VRef sd) \<and> holds_names h columns)
             (construct (VRef sd) columns) (\<lambda>r h. is_table h r)"
            by (rule returns_construct)
        qed
      qed
    qed
  qed
qed

lemma key_text_ok: "not_nullish row \<Longrightarrow> \<exists>key. key_text stringify cols row h = Inr key"
proof -
  assume row: "not_nullish row"
  have "\<exists>vs. collect (map (\<lambda>column. get_prop h row column) cols) = Inr vs"
    by (rule collect_ok) (use get_prop_ok [OF row] in auto)
  then show ?thesis by (auto simp: key_text_def)
qed

lemma returns_group_step:
  assumes row: "not_nullish row"
  shows "returns (\<lambda>h. \<exists>c. field_columns h this = Inr c \<and> holds_names h c)
     (group_step stringify cols row groups)
     (\<lambda>groups' h. \<exists>c. field_columns h this = Inr c \<and> holds_names h c)"
  unfolding group_step_def
proof (rule returns_and_then [where R = "\<lambda>key h. \<exists>c. field_columns h this = Inr c \<and> holds_names h c"])
  let ?I = "\<lambda>h. \<exists>c. field_columns h this = Inr c \<and> holds_names h c"
  show "returns ?I (inspect (key_text stringify cols row)) (\<lambda>key. ?I)"
    by (rule returns_inspect) (use key_text_ok [OF row] in blast)
next
  fix key :: string
  let ?I = "\<lambda>h. \<exists>c. field_columns h this = Inr c \<and> holds_names h c"
  have pushed: "returns ?I (and_then (assign bucket (push row)) (\<lambda>u. succeed gs)) (\<lambda>groups'. ?I)"
    for bucket and gs :: "(string \<times> nat) list"
  proof (rule returns_and_then [where R = "\<lambda>u. ?I"])
    show "returns ?I (assign bucket (push row)) (\<lambda>u. ?I)"
      by (rule returns_assign) simp
  next
    fix u :: unit
    show "returns ?I (succeed gs) (\<lambda>groups'. ?I)" by (rule returns_succeed)
  qed
  show "returns ?I
     (case map_of groups key of
        None \<Rightarrow>
          and_then (allocate (ArrayCell [])) (\<lambda>bucket.
          and_then (assign bucket (push row)) (\<lambda>u.
          succeed (groups @ [(key, bucket)])))
      | Some bucket \<Rightarrow>
          and_then (assign bucket (push row)) (\<lambda>u. succeed groups))
     (\<lambda>groups'. ?I)"
  proof (cases "map_of groups key")
    case None
    have "returns ?I
       (and_then (allocate (ArrayCell [])) (\<lambda>bucket.
        and_then (assign bucket (push row)) (\<lambda>u.
        succeed (groups @ [(key, bucket)]))))
       (\<lambda>groups'. ?I)"
    proof (rule returns_and_then [where R = "\<lambda>bucket. ?I"])
      show "returns ?I (allocate (ArrayCell [])) (\<lambda>bucket. ?I)"
        by (rule returns_allocate) (auto simp: field_columns_append holds_names_append)
    next
      fix bucket
      show "returns ?I (and_then (assign bucket (push row)) (\<lambda>u.
          succeed (groups @ [(key, bucket)]))) (\<lambda>groups'. ?I)"
        by (rule pushed)
    qed
    with None show ?thesis by simp
  next
    case (Some bucket)
    with pushed [of bucket groups] show ?thesis by simp
  qed
qed

lemma returns_groupBy:
  "returns (\<lambda>h. is_table h this) (groupBy_st stringify this cols) (\<lambda>r h. is_table h r)"
  unfolding groupBy_st_def
proof (rule returns_and_then [where R = "\<lambda>rows h. (\<exists>c. field_columns h this = Inr c \<and> holds_names h c)
      \<and> list_all not_nullish rows"])
  show "returns (\<lambda>h. is_table h this) (inspect (\<lambda>h. rows_of h this))
     (\<lambda>rows h. (\<exists>c. field_columns h this = Inr c \<and> holds_names h c) \<and> list_all not_nullish rows)"
    by (rule returns_inspect) (use is_table_rows is_table_columns in blast)
next
  fix rows
  let ?I = "\<lambda>h. \<exists>c. field_columns h this = Inr c \<and> holds_names h c"
  show "returns (\<lambda>h. ?I h \<and> list_all not_nullish rows)
     (and_then (fold_effect (group_step stringify cols) rows []) (\<lambda>groups.
      and_then (allocate (ArrayCell (map (\<lambda>(key, bucket). VRef bucket) groups))) (\<lambda>groupData.
      and_then (inspect (\<lambda>h. field_columns h this)) (\<lambda>columns.
      construct (VRef groupData) columns))))
     (\<lambda>r h. is_table h r)"
  proof (rule returns_assume)
    assume rows: "list_all not_nullish rows"
    show "returns ?I
       (and_then (fold_effect (group_step stringify cols) rows []) (\<lambda>groups.
        and_then (allocate (ArrayCell (map (\<lambda>(key, bucket). VRef bucket) groups))) (\<lambda>groupData.
        and_then (inspect (\<lambda>h. field_columns h this)) (\<lambda>columns.
        construct (VRef groupData) columns))))
       (\<lambda>r h. is_table h r)"
    proof (rule returns_and_then [where R = "\<lambda>groups. ?I"])
      show "returns ?I (fold_effect (group_step stringify cols) rows []) (\<lambda>groups. ?I)"
      proof (rule returns_fold_effect)
        fix row and groups :: "(string \<times> nat) list"
        assume "row \<in> set rows"
        with rows have "not_nullish row" by (simp add: list_all_iff)
        then show "returns ?I (group_step stringify cols row groups) (\<lambda>groups'. ?I)"
          by (rule returns_group_step)
      qed
    next
      fix groups :: "(string \<times> nat) list"
      have refs: "list_all not_nullish (map (\<lambda>(key, bucket). VRef bucket) groups)"
        by (auto simp: list_all_iff not_nullish_def)
      show "returns ?I
         (and_then (allocate (ArrayCell (map (\<lambda>(key, bucket). VRef bucket) groups))) (\<lambda>groupData.
          and_then (inspect (\<lambda>h. field_columns h this)) (\<lambda>columns.
          construct (VRef groupData) columns)))
         (\<lambda>r h. is_table h r)"
      proof (rule returns_and_then [where R = "\<lambda>gd h. holds_rows h (VRef gd) \<and> ?I h"])
        show "returns ?I (allocate (ArrayCell (map (\<lambda>(key, bucket). VRef bucket) groups)))
           (\<lambda>gd h. holds_rows h (VRef gd) \<and> ?I h)"
          by (rule returns_allocate)
             (auto simp: holds_rows_fresh [OF refs] field_columns_append holds_names_append)
      next
        fix gd
        show "returns (\<lambda>h. holds_rows h (VRef gd) \<and> ?I h)
           (and_then (inspect (\<lambda>h. field_columns h this)) (\<lambda>columns.
            construct (VRef gd) columns))
           (\<lambda>r h. is_table h r)"
        proof (rule returns_and_then [where R = "\<lambda>columns h. holds_rows h (VRef gd) \<and> holds_names h columns"])
          show "returns (\<lambda>h. holds_rows h (VRef gd) \<and> ?I h) (inspect (\<lambda>h. field_columns h this))
             (\<lambda>columns h. holds_rows h (VRef gd) \<and> holds_names h columns)"
            by (rule returns_inspect) blast
        next
          fix columns
          show "returns (\<lambda>h. holds_rows h (VRef gd) \<and> holds_names h columns)
             (construct (VRef gd) columns) (\<lambda>r h. is_table h r)"
            by (rule returns_construct)
        qed
      qed
    qed
  qed
qed

lemma returns_tableI:
  assumes f: "frame (length h) (fresh_ref (length h)) m"
    and r: "returns (\<lambda>h. is_table h this) m (\<lambda>r h. is_table h r)"
    and t: "is_table h this"
  shows "returns_table h m"
proof -
  from r t have c: "case m h of (Inr r, h') \<Rightarrow> is_table h' r | (Inl e, h') \<Rightarrow> False"
    by (simp add: returns_def)
  obtain r0 h' where m: "m h = (r0, h')" by (cases "m h")
  with c obtain x where x: "r0 = Inr x" and i: "is_table h' x" by (cases r0) simp_all
  from f have "case m h of (r, h') \<Rightarrow> length h \<le> length h' \<and> take (length h) h' = take (length h) h
      \<and> (case r of Inl e \<Rightarrow> True | Inr x \<Rightarrow> fresh_ref (length h) x)"
    unfolding frame_def by (elim allE [of _ h] impE) simp_all
  with m x have "fresh_ref (length h) x" by simp
  with m x i show ?thesis by (simp add: returns_table_def)
qed

text \<open>
  C8. Each of \<open>select\<close>, \<open>filter\<close>, \<open>sortBy\<close> and \<open>groupBy\<close>, called in any store \<open>h\<close> on any
  receiver \<open>this\<close> with any arguments, leaves every cell of \<open>h\<close> as it was, whether it
  returns or throws. So the receiver's instance, its columns array, its data array with
  the order of the rows in it, its row objects and its dtypes object are after the call
  what they were before it. Called on a table, each of the four returns, and what it
  returns is a table whose instance the call allocated. The callbacks (the condition of
  \<open>filter\<close>, and what \<open><\<close> and \<open>JSON.stringify\<close> call on the values they are given) read
  the store and do not assign to it.
\<close>

theorem derivations_leave_receiver:
  "leaves_store h this (select_st this arg)
   \<and> leaves_store h this (filter_st this condition)
   \<and> leaves_store h this (sortBy_st lt this cols ascending)
   \<and> leaves_store h this (groupBy_st stringify this cols)
   \<and> (is_table h this \<longrightarrow>
        returns_table h (select_st this arg)
        \<and> returns_table h (filter_st this condition)
        \<and> returns_table h (sortBy_st lt this cols ascending)
        \<and> returns_table h (groupBy_st stringify this cols))"
  by (intro conjI impI frame_leaves_store frame_select frame_filter frame_sortBy frame_groupBy
        returns_tableI [where this = this] returns_select returns_filter returns_sortBy
        returns_groupBy)

text \<open>
  \<open>sortBy(["Age"], false)\<close> on the table of the tests: the sorted copy is the new array
  at 7, with the receiver's row objects in the order Jane, Sam, John; the new instance is
  at 8, with a new columns array at 9 and new dtypes at 10.
\<close>

lemma sortBy_test_store:
  "sortBy_st (\<lambda>h. number_less) (VRef 6) [''Age''] (Some False) test_store =
     (Inr (VRef 8),
      test_store @
      [ArrayCell [VRef 2, VRef 3, VRef 1],
       FrameCell (VRef 9) (VRef 7) (VRef 10),
       NamesCell [''ID'', ''Name'', ''Age''],
       ObjectCell [(''ID'', VStr ''number''), (''Name'', VStr ''string''), (''Age'', VStr ''number'')]])"
  by code_simp

lemma test_store_valid: "list_all (valid_ref test_store) (receiver_cells test_store (VRef 6))"
  by code_simp

lemma test_store_table: "is_table test_store (VRef 6)"
  by code_simp

text \<open>
  The theorem for C8 at that call: the receiver is a table with all its cells in the
  store; the call returns the instance at 8, which is a table in the store after the call;
  the first seven cells are the store before the call, and the view of the receiver at 6
  is the same.
\<close>

theorem derivations_leave_receiver_witness:
  "list_all (valid_ref test_store) (receiver_cells test_store (VRef 6))
   \<and> is_table test_store (VRef 6)
   \<and> fst (sortBy_st (\<lambda>h. number_less) (VRef 6) [''Age''] (Some False) test_store) = Inr (VRef 8)
   \<and> is_table (snd (sortBy_st (\<lambda>h. number_less) (VRef 6) [''Age''] (Some False) test_store)) (VRef 8)
   \<and> snd (sortBy_st (\<lambda>h. number_less) (VRef 6) [''Age''] (Some False) test_store) ! 7
        = ArrayCell [VRef 2, VRef 3, VRef 1]
   \<and> take 7 (snd (sortBy_st (\<lambda>h. number_less) (VRef 6) [''Age''] (Some False) test_store))
        = test_store
   \<and> table_view (snd (sortBy_st (\<lambda>h. number_less) (VRef 6) [''Age''] (Some False) test_store))
         (VRef 6) = table_view test_store (VRef 6)"
proof -
  let ?m = "sortBy_st (\<lambda>h. number_less) (VRef 6) [''Age''] (Some False)"
  from derivations_leave_receiver [of test_store "VRef 6" "Names []" "\<lambda>h row. False"
      "\<lambda>h. number_less" "[''Age'']" "Some False" "\<lambda>h vs. []"]
  have l: "leaves_store test_store (VRef 6) ?m"
    and r: "returns_table test_store ?m"
    using test_store_table by simp_all
  from l test_store_valid
  have "table_view (snd (?m test_store)) (VRef 6) = table_view test_store (VRef 6)"
    by (simp add: leaves_store_def)
  moreover have len: "length test_store = 7" by (simp add: test_store_def)
  moreover have "snd (?m test_store) ! 7 = ArrayCell [VRef 2, VRef 3, VRef 1]"
    by (simp add: sortBy_test_store nth_append len)
  moreover have "take 7 (snd (?m test_store)) = test_store"
    by (simp add: sortBy_test_store len)
  moreover have f: "fst (?m test_store) = Inr (VRef 8)"
    by (simp add: sortBy_test_store)
  moreover from r f have "is_table (snd (?m test_store)) (VRef 8)"
    by (simp add: returns_table_def split: prod.splits sum.splits)
  ultimately show ?thesis
    using test_store_valid test_store_table by blast
qed

text \<open>
  The two models on the table of the tests. The stored table reads back as \<open>test_df\<close>, and
  each of the four methods, run on the store, returns a table that reads back as the
  table that the method of the first model returns; the callbacks of the store model are
  those of the first model, applied to what they read.
\<close>

lemma test_store_reads_test_df: "read_table 2 test_store (VRef 6) = Some test_df"
  by code_simp

lemma select_test_store:
  "select_st (VRef 6) (Names [''ID'', ''Salary'', ''Age'']) test_store =
     (Inr (VRef 12),
      test_store @
      [NamesCell [''ID'', ''Age''],
       ObjectCell [(''ID'', VNum 1), (''Age'', VNum 25)],
       ObjectCell [(''ID'', VNum 2), (''Age'', VNum 30)],
       ObjectCell [(''ID'', VNum 3), (''Age'', VNum 28)],
       ArrayCell [VRef 8, VRef 9, VRef 10],
       FrameCell (VRef 13) (VRef 11) (VRef 14),
       NamesCell [''ID'', ''Age''],
       ObjectCell [(''ID'', VStr ''number''), (''Age'', VStr ''number'')]])"
  by (simp add: select_st_def test_store_def and_then_def inspect_def allocate_def assign_def
        succeed_def fail_def column_names_def field_columns_def field_data_def names_of_def
        rows_of_def elements_def cell_of_def copy_row_def construct_def get_index_def
        get_prop_def is_array_val_def index_val_def keys_of_def finish_instance_def
        detect_types_def detect_type_def column_values_def new_Set_def set_add_def nth_append)

lemma select_agrees_on_test_table:
  "read_result 2 (select_st (VRef 6) (Names [''ID'', ''Salary'', ''Age'']) test_store)
     = Some (select test_df (Names [''ID'', ''Salary'', ''Age'']))"
proof -
  have "select test_df (Names [''ID'', ''Salary'', ''Age'']) = Inr \<lparr>columns = [''ID'', ''Age''],
     data = [Obj [(''ID'', Num 1), (''Age'', Num 25)], Obj [(''ID'', Num 2), (''Age'', Num 30)],
             Obj [(''ID'', Num 3), (''Age'', Num 28)]],
     dtypes = [(''ID'', Str ''number''), (''Age'', Str ''number'')]\<rparr>"
    by (simp add: select_def pick_def test_df_def test_rows_def DataFrame_new_def nullish_def
          js_index_def finish_def detectColumnTypes_def detectColumnType_def getColumn_def
          new_Set_def set_add_def Let_def)
  moreover have "read_result 2 (Inr (VRef 12),
      test_store @
      [NamesCell [''ID'', ''Age''],
       ObjectCell [(''ID'', VNum 1), (''Age'', VNum 25)],
       ObjectCell [(''ID'', VNum 2), (''Age'', VNum 30)],
       ObjectCell [(''ID'', VNum 3), (''Age'', VNum 28)],
       ArrayCell [VRef 8, VRef 9, VRef 10],
       FrameCell (VRef 13) (VRef 11) (VRef 14),
       NamesCell [''ID'', ''Age''],
       ObjectCell [(''ID'', VStr ''number''), (''Age'', VStr ''number'')]]) =
     Some (Inr \<lparr>columns = [''ID'', ''Age''],
     data = [Obj [(''ID'', Num 1), (''Age'', Num 25)], Obj [(''ID'', Num 2), (''Age'', Num 30)],
             Obj [(''ID'', Num 3), (''Age'', Num 28)]],
     dtypes = [(''ID'', Str ''number''), (''Age'', Str ''number'')]\<rparr>)"
    by code_simp
  ultimately show ?thesis by (simp add: select_test_store)
qed

lemma filter_agrees_on_test_table:
  "read_result 2 (filter_st (VRef 6)
       (\<lambda>h row. read_val 1 h (prop_or_undefined h row ''Age'') \<noteq> Num 30) test_store)
     = Some (filter_df test_df (\<lambda>row. js_prop row ''Age'' \<noteq> Num 30))
   \<and> read_result 2 (filter_st (VRef 6) (\<lambda>h row. False) test_store)
     = Some (filter_df test_df (\<lambda>row. False))"
  by code_simp

lemma sortBy_agrees_on_test_table:
  "read_result 2 (sortBy_st (\<lambda>h a b. js_less (\<lambda>a b. False) (read_val 2 h a) (read_val 2 h b))
       (VRef 6) [''Age''] (Some False) test_store)
     = Some (sortBy (\<lambda>a b. False) test_df [''Age''] (Some False))"
  by code_simp

lemma groupBy_agrees_on_test_table:
  "read_result 3 (groupBy_st (\<lambda>h vs. json_value (Arr (map (read_val 2 h) vs)))
       (VRef 6) [''Age''] test_store)
     = Some (groupBy test_df [''Age''])
   \<and> read_result 3 (groupBy_st (\<lambda>h vs. json_value (Arr (map (read_val 2 h) vs)))
       (VRef 6) [] test_store)
     = Some (groupBy test_df [])"
  by code_simp

end
